theory Spec2Isabelle
  imports Main
begin

section \<open>Volume data-blocks of blenkernel: the grid file cache, grid handles, sequences\<close>

text \<open>
  A shallow embedding of \<^verbatim>\<open>source/blender/blenkernel/intern/volume.cc\<close> (the
  \<^verbatim>\<open>WITH_OPENVDB\<close> build). Structs are records, the global cache is a finite map that
  is passed explicitly, and what the C++ leaves undefined or throws (a remainder by zero,
  an access through a cache-entry pointer whose entry was erased, \<^verbatim>\<open>vector::at\<close> out of
  range) is a value of the type \<open>error\<close>.
\<close>

subsection \<open>C integers\<close>

datatype error = DivisionByZero | RemainderOverflow | DanglingEntry | OutOfRange

text \<open>
  A C \<^verbatim>\<open>int\<close> is modelled by its value, an \<open>int\<close> between \<open>INT_MIN\<close> and \<open>INT_MAX\<close>.
  \<open>int32\<close> gives the value a 32-bit two's complement register holds for a mathematical
  result: every arithmetic operation of the source is wrapped in it.
\<close>

definition INT_MAX :: int where
  "INT_MAX = 2147483647"

definition INT_MIN :: int where
  "INT_MIN = - 2147483648"

definition int32 :: "int \<Rightarrow> int" where
  "int32 x = (x + 2147483648) mod 4294967296 - 2147483648"

text \<open>The operator \<^verbatim>\<open>%\<close> of C truncates towards zero: the result has the sign of the dividend.\<close>

definition c_rem :: "int \<Rightarrow> int \<Rightarrow> int" where
  "c_rem a b = sgn a * (\<bar>a\<bar> mod \<bar>b\<bar>)"

text \<open>
  \<^verbatim>\<open>a % b\<close> on \<^verbatim>\<open>int\<close> as the source executes it. It is undefined, and traps on x86, in two
  cases: the divisor is 0, or the dividend is \<open>INT_MIN\<close> and the divisor is \<open>-1\<close>, where the
  quotient is not an \<^verbatim>\<open>int\<close>.
\<close>

definition rem_int :: "int \<Rightarrow> int \<Rightarrow> error + int" where
  "rem_int a b =
    (if b = 0 then Inl DivisionByZero
     else if a = INT_MIN \<and> b = - 1 then Inl RemainderOverflow
     else Inr (c_rem a b))"

text \<open>
  Modelled from the spec: \<^verbatim>\<open>clamp_i\<close> of BLI_math is not among the sources. The spec's
  ``clamp into \<open>[1, duration]\<close>'' is \<^verbatim>\<open>min_ii(max_ii(value, min), max)\<close>.
\<close>

definition clamp_i :: "int \<Rightarrow> int \<Rightarrow> int \<Rightarrow> int" where
  "clamp_i val lo hi = min (max val lo) hi"

subsection \<open>Data model\<close>

text \<open>
  An OpenVDB grid as far as the cache looks at it: its name metadata and its tree. The tree
  is a list of voxel values, \<open>[]\<close> the empty tree that \<^verbatim>\<open>clear()\<close> leaves and that a grid read
  by \<^verbatim>\<open>readAllGridMetadata\<close> has.
\<close>

record Grid =
  getName :: string
  tree :: "nat list"

definition clear :: "Grid \<Rightarrow> Grid" where
  "clear g = g\<lparr>tree := []\<rparr>"

definition setTree :: "Grid \<Rightarrow> nat list \<Rightarrow> Grid" where
  "setTree g t = g\<lparr>tree := t\<rparr>"

text \<open>\<^verbatim>\<open>VolumeFileCache::Entry\<close>. The mutex of an entry is named by the entry's key.\<close>

record Entry =
  filepath :: string
  grid_name :: string
  grid :: Grid
  is_loaded :: bool
  error_msg :: string
  num_metadata_users :: int
  num_tree_users :: int

text \<open>
  The key of \<^verbatim>\<open>EntryHasher\<close> and \<^verbatim>\<open>EntryEqual\<close>. Pointers into the \<^verbatim>\<open>unordered_set\<close> are
  stable and an entry never changes its key, so an \<^verbatim>\<open>Entry *\<close> is modelled by the key.
\<close>

type_synonym key = "string \<times> string"

definition entry_key :: "Entry \<Rightarrow> key" where
  "entry_key e = (filepath e, grid_name e)"

text \<open>
  \<^verbatim>\<open>VolumeGrid\<close>, the handle. \<open>entry = None\<close> is the null pointer of a grid that is not
  file-backed. \<open>vdb\<close> is read for the name metadata only, which never changes after
  construction; the tree of a file-backed grid is the tree of its cache entry.
\<close>

record VolumeGrid =
  vdb :: Grid
  entry :: "key option"
  grid_is_loaded :: bool

text \<open>
  \<^verbatim>\<open>VolumeGridVector\<close>: the elements and the capacity of the \<^verbatim>\<open>std::vector\<close> it derives
  from, and the members the struct adds.
\<close>

record VolumeGridVector =
  grids :: "VolumeGrid list"
  grids_capacity :: nat
  grids_filepath :: string
  grids_error_msg :: string

datatype VolumeSequenceMode =
  VOLUME_SEQUENCE_CLIP
| VOLUME_SEQUENCE_EXTEND
| VOLUME_SEQUENCE_REPEAT
| VOLUME_SEQUENCE_PING_PONG

text \<open>The members of the \<^verbatim>\<open>Volume\<close> data-block that \<^verbatim>\<open>volume.cc\<close> reads or writes.\<close>

record Volume =
  volume_filepath :: string
  is_sequence :: bool
  sequence_mode :: VolumeSequenceMode
  frame_duration :: int
  frame_start :: int
  frame_offset :: int
  active_grid :: int
  runtime_frame :: int
  runtime_grids :: VolumeGridVector

subsection \<open>Sequence\<close>

definition VOLUME_FRAME_NONE :: int where
  "VOLUME_FRAME_NONE = INT_MAX"

text \<open>
  \<^verbatim>\<open>volume_sequence_frame\<close>. The argument \<open>scene_frame\<close> is the value of
  \<^verbatim>\<open>const int scene_frame = DEG_get_ctime(depsgraph)\<close>. The source has no test before its
  two \<^verbatim>\<open>%\<close>; each is \<open>rem_int\<close> here, and where that is an error the function is.
\<close>

definition volume_sequence_frame :: "int \<Rightarrow> Volume \<Rightarrow> error + int" where
  "volume_sequence_frame scene_frame volume =
    (if \<not> is_sequence volume then Inr 0
     else if frame_duration volume = 0 then Inr VOLUME_FRAME_NONE
     else
       let duration = frame_duration volume;
           frame = int32 (int32 (scene_frame - frame_start volume) + 1)
       in (case sequence_mode volume of
             VOLUME_SEQUENCE_CLIP \<Rightarrow>
               if frame < 1 \<or> frame > duration then Inr VOLUME_FRAME_NONE
               else Inr (int32 (frame + frame_offset volume))
           | VOLUME_SEQUENCE_EXTEND \<Rightarrow>
               Inr (int32 (clamp_i frame 1 duration + frame_offset volume))
           | VOLUME_SEQUENCE_REPEAT \<Rightarrow>
               (case rem_int frame duration of
                  Inl err \<Rightarrow> Inl err
                | Inr frame1 \<Rightarrow>
                    let frame2 = (if frame1 < 0 then int32 (frame1 + duration) else frame1);
                        frame3 = (if frame2 = 0 then duration else frame2)
                    in Inr (int32 (frame3 + frame_offset volume)))
           | VOLUME_SEQUENCE_PING_PONG \<Rightarrow>
               let pingpong_duration = int32 (int32 (duration * 2) - 2)
               in (case rem_int frame pingpong_duration of
                     Inl err \<Rightarrow> Inl err
                   | Inr frame1 \<Rightarrow>
                       let frame2 = (if frame1 < 0 then int32 (frame1 + pingpong_duration)
                                     else frame1);
                           frame3 = (if frame2 = 0 then pingpong_duration else frame2);
                           frame4 = (if frame3 > duration then int32 (int32 (duration * 2) - frame3)
                                     else frame3)
                       in Inr (int32 (frame4 + frame_offset volume)))))"

subsection \<open>Grids of a volume\<close>

text \<open>\<^verbatim>\<open>BKE_volume_num_grids\<close>: the vector's \<^verbatim>\<open>size()\<close>, converted to \<^verbatim>\<open>int\<close>.\<close>

definition BKE_volume_num_grids :: "Volume \<Rightarrow> int" where
  "BKE_volume_num_grids volume = int32 (int (length (grids (runtime_grids volume))))"

text \<open>
  \<^verbatim>\<open>BKE_volume_grid_get\<close>: \<^verbatim>\<open>vector::at\<close> throws \<^verbatim>\<open>out_of_range\<close> for an index that is not
  below the size; a negative \<^verbatim>\<open>int\<close> converts to a \<^verbatim>\<open>size_t\<close> above every size.
\<close>

definition BKE_volume_grid_get :: "Volume \<Rightarrow> int \<Rightarrow> error + VolumeGrid" where
  "BKE_volume_grid_get volume grid_index =
    (if 0 \<le> grid_index \<and> grid_index < int (length (grids (runtime_grids volume)))
     then Inr (grids (runtime_grids volume) ! nat grid_index)
     else Inl OutOfRange)"

text \<open>\<^verbatim>\<open>BKE_volume_grid_active_get\<close>; \<open>None\<close> is the \<^verbatim>\<open>NULL\<close> it returns.\<close>

definition BKE_volume_grid_active_get :: "Volume \<Rightarrow> error + VolumeGrid option" where
  "BKE_volume_grid_active_get volume =
    (let num_grids = BKE_volume_num_grids volume
     in if num_grids = 0 then Inr None
        else
          (case BKE_volume_grid_get volume (clamp_i (active_grid volume) 0 (int32 (num_grids - 1))) of
             Inl e \<Rightarrow> Inl e
           | Inr g \<Rightarrow> Inr (Some g)))"

text \<open>A sequence volume with the given mode and frame settings, nothing loaded.\<close>

definition sequence_volume :: "VolumeSequenceMode \<Rightarrow> int \<Rightarrow> int \<Rightarrow> int \<Rightarrow> Volume" where
  "sequence_volume mode duration start offset =
    \<lparr>volume_filepath = ''//smoke_####.vdb'', is_sequence = True, sequence_mode = mode,
     frame_duration = duration, frame_start = start, frame_offset = offset,
     active_grid = 0, runtime_frame = 0,
     runtime_grids = \<lparr>grids = [], grids_capacity = 0, grids_filepath = [], grids_error_msg = []\<rparr>\<rparr>"

subsection \<open>The world: the global cache and a trace of what an operation does outside\<close>

text \<open>
  The three kinds of \<^verbatim>\<open>std::mutex\<close>: the one of \<^verbatim>\<open>GLOBAL_CACHE\<close>, the one of a cache
  entry, the one of a \<^verbatim>\<open>VolumeGridVector\<close> (that of the volume at hand).
\<close>

datatype mutex = CacheMutex | EntryMutex key | GridsMutex

text \<open>
  What an operation does besides changing data: a \<^verbatim>\<open>std::lock_guard\<close> taking its mutex
  and releasing it at the end of its scope, \<^verbatim>\<open>BLI_exists\<close> on a path, and the \<^verbatim>\<open>try\<close> block
  that opens an \<^verbatim>\<open>openvdb::io::File\<close> on a path and reads from it.
\<close>

datatype event = Lock mutex | Unlock mutex | FileExists string | FileOpen string

record world =
  cache :: "key \<rightharpoonup> Entry"
  trace :: "event list"

definition emit :: "event \<Rightarrow> world \<Rightarrow> world" where
  "emit ev w = w\<lparr>trace := trace w @ [ev]\<rparr>"

definition store :: "key \<Rightarrow> Entry \<Rightarrow> world \<Rightarrow> world" where
  "store k e w = w\<lparr>cache := (cache w)(k \<mapsto> e)\<rparr>"

definition erase :: "key \<Rightarrow> world \<Rightarrow> world" where
  "erase k w = w\<lparr>cache := (cache w)(k := None)\<rparr>"

text \<open>
  What lies outside \<^verbatim>\<open>volume.cc\<close>: the path functions of BLI_path_util (their code is not
  among the sources, so they are parameters), the file system, and the two reads of an
  OpenVDB file, each either the \<^verbatim>\<open>what()\<close> of the \<^verbatim>\<open>openvdb::IoError\<close> thrown by the open or
  the read, or the value read. \<open>readAllGridMetadata\<close> may hold null pointers (\<open>None\<close>).
  \<open>vector_growth n\<close> is the capacity that the standard library gives a \<^verbatim>\<open>std::vector\<close> of \<open>n\<close>
  elements that is full when an element is added; the C++ standard leaves it open.
\<close>

record env =
  BLI_path_abs :: "string \<Rightarrow> string"
  BLI_path_frame_get :: "string \<Rightarrow> (int \<times> int) option"
  BLI_path_frame_strip :: "string \<Rightarrow> string \<times> string"
  BLI_path_frame :: "string \<Rightarrow> int \<Rightarrow> int \<Rightarrow> string"
  BLI_path_extension_ensure :: "string \<Rightarrow> string \<Rightarrow> string"
  BLI_split_file_part :: "string \<Rightarrow> string"
  BLI_exists :: "string \<Rightarrow> bool"
  readAllGridMetadata :: "string \<Rightarrow> string + Grid option list"
  readGrid :: "string \<Rightarrow> string \<Rightarrow> string + nat list"
  vector_growth :: "nat \<Rightarrow> nat"

subsection \<open>\<^verbatim>\<open>VolumeFileCache\<close>\<close>

text \<open>The two constructors of \<^verbatim>\<open>Entry\<close>; the copy starts without users and without error.\<close>

definition Entry_new :: "string \<Rightarrow> Grid \<Rightarrow> Entry" where
  "Entry_new path g =
    \<lparr>filepath = path, grid_name = getName g, grid = g, is_loaded = False, error_msg = [],
     num_metadata_users = 0, num_tree_users = 0\<rparr>"

definition Entry_copy :: "Entry \<Rightarrow> Entry" where
  "Entry_copy other =
    \<lparr>filepath = filepath other, grid_name = grid_name other, grid = grid other,
     is_loaded = is_loaded other, error_msg = [],
     num_metadata_users = 0, num_tree_users = 0\<rparr>"

text \<open>
  The user counts are \<^verbatim>\<open>int\<close> members that the source increments and decrements by one;
  they are modelled without the 32-bit wrap.

  \<^verbatim>\<open>add_metadata_user\<close> returns the pointer to the entry, here its key.
\<close>

definition add_metadata_user :: "Entry \<Rightarrow> world \<Rightarrow> key \<times> world" where
  "add_metadata_user template_entry w =
    (let w1 = emit (Lock CacheMutex) w;
         k = entry_key template_entry;
         e = (case cache w1 k of None \<Rightarrow> Entry_copy template_entry | Some found \<Rightarrow> found);
         w2 = store k (e\<lparr>num_metadata_users := num_metadata_users e + 1\<rparr>) w1
     in (k, emit (Unlock CacheMutex) w2))"

text \<open>
  The other members take an \<^verbatim>\<open>Entry &\<close>. A reference to an entry that the cache has erased
  dangles: the model answers \<open>DanglingEntry\<close>.
\<close>

definition copy_user :: "key \<Rightarrow> bool \<Rightarrow> world \<Rightarrow> error + world" where
  "copy_user k tree_user w =
    (let w1 = emit (Lock CacheMutex) w
     in case cache w1 k of
          None \<Rightarrow> Inl DanglingEntry
        | Some e \<Rightarrow>
            Inr (emit (Unlock CacheMutex)
              (store k (if tree_user then e\<lparr>num_tree_users := num_tree_users e + 1\<rparr>
                        else e\<lparr>num_metadata_users := num_metadata_users e + 1\<rparr>) w1)))"

text \<open>
  \<^verbatim>\<open>update_for_remove_user\<close>. Its argument \<open>e\<close> is the entry at \<open>k\<close> as the caller has just
  changed it in place; the function writes it back, erases it, or writes it back cleared.
\<close>

definition update_for_remove_user :: "key \<Rightarrow> Entry \<Rightarrow> world \<Rightarrow> world" where
  "update_for_remove_user k e w =
    (if num_metadata_users e + num_tree_users e = 0 then erase k w
     else if num_tree_users e = 0 then store k (e\<lparr>grid := clear (grid e), is_loaded := False\<rparr>) w
     else store k e w)"

definition remove_user :: "key \<Rightarrow> bool \<Rightarrow> world \<Rightarrow> error + world" where
  "remove_user k tree_user w =
    (let w1 = emit (Lock CacheMutex) w
     in case cache w1 k of
          None \<Rightarrow> Inl DanglingEntry
        | Some e \<Rightarrow>
            Inr (emit (Unlock CacheMutex)
              (update_for_remove_user k
                (if tree_user then e\<lparr>num_tree_users := num_tree_users e - 1\<rparr>
                 else e\<lparr>num_metadata_users := num_metadata_users e - 1\<rparr>) w1)))"

definition change_to_tree_user :: "key \<Rightarrow> world \<Rightarrow> error + world" where
  "change_to_tree_user k w =
    (let w1 = emit (Lock CacheMutex) w
     in case cache w1 k of
          None \<Rightarrow> Inl DanglingEntry
        | Some e \<Rightarrow>
            Inr (emit (Unlock CacheMutex)
              (update_for_remove_user k
                (e\<lparr>num_tree_users := num_tree_users e + 1,
                   num_metadata_users := num_metadata_users e - 1\<rparr>) w1)))"

definition change_to_metadata_user :: "key \<Rightarrow> world \<Rightarrow> error + world" where
  "change_to_metadata_user k w =
    (let w1 = emit (Lock CacheMutex) w
     in case cache w1 k of
          None \<Rightarrow> Inl DanglingEntry
        | Some e \<Rightarrow>
            Inr (emit (Unlock CacheMutex)
              (update_for_remove_user k
                (e\<lparr>num_metadata_users := num_metadata_users e + 1,
                   num_tree_users := num_tree_users e - 1\<rparr>) w1)))"

subsection \<open>\<^verbatim>\<open>VolumeGrid\<close>\<close>

text \<open>
  The constructor from a template entry: \<open>vdb\<close> is the grid of the entry found or made (the
  second branch of the \<open>case\<close> is never taken, \<open>add_metadata_user\<close> leaves an entry at \<open>k\<close>).
\<close>

definition VolumeGrid_of_entry :: "Entry \<Rightarrow> world \<Rightarrow> VolumeGrid \<times> world" where
  "VolumeGrid_of_entry template_entry w =
    (let (k, w1) = add_metadata_user template_entry w
     in (\<lparr>vdb = (case cache w1 k of Some e \<Rightarrow> grid e | None \<Rightarrow> grid template_entry),
          entry = Some k, grid_is_loaded = False\<rparr>, w1))"

text \<open>
  The constructor \<^verbatim>\<open>VolumeGrid(const openvdb::GridBase::Ptr &vdb)\<close> of a grid that is not
  file-backed.
\<close>

definition VolumeGrid_of_vdb :: "Grid \<Rightarrow> VolumeGrid" where
  "VolumeGrid_of_vdb g = \<lparr>vdb = g, entry = None, grid_is_loaded = True\<rparr>"

text \<open>The copy constructor: the three members are copied, a file-backed copy is counted.\<close>

definition VolumeGrid_copy :: "VolumeGrid \<Rightarrow> world \<Rightarrow> error + VolumeGrid \<times> world" where
  "VolumeGrid_copy other w =
    (case entry other of
       None \<Rightarrow> Inr (other, w)
     | Some k \<Rightarrow>
         (case copy_user k (grid_is_loaded other) w of
            Inl x \<Rightarrow> Inl x
          | Inr w1 \<Rightarrow> Inr (other, w1)))"

text \<open>The destructor.\<close>

definition VolumeGrid_delete :: "VolumeGrid \<Rightarrow> world \<Rightarrow> error + world" where
  "VolumeGrid_delete h w =
    (case entry h of
       None \<Rightarrow> Inr w
     | Some k \<Rightarrow> remove_user k (grid_is_loaded h) w)"

definition name :: "VolumeGrid \<Rightarrow> string" where
  "name h = getName (vdb h)"

text \<open>
  \<^verbatim>\<open>VolumeGrid::load\<close>. One thread runs, so the second test of \<^verbatim>\<open>is_loaded\<close> under the entry's
  mutex reads what the first read and is left out. The \<^verbatim>\<open>try\<close> block either sets the tree
  of the entry's grid or, on \<^verbatim>\<open>openvdb::IoError\<close>, the entry's \<^verbatim>\<open>error_msg\<close>.
\<close>

definition load :: "env \<Rightarrow> string \<Rightarrow> VolumeGrid \<Rightarrow> world \<Rightarrow> error + VolumeGrid \<times> world" where
  "load ev path h w =
    (case entry h of
       None \<Rightarrow> Inr (h, w)
     | Some k \<Rightarrow>
         if grid_is_loaded h then Inr (h, w)
         else
           (case change_to_tree_user k (emit (Lock (EntryMutex k)) w) of
              Inl x \<Rightarrow> Inl x
            | Inr w2 \<Rightarrow>
                (case cache w2 k of
                   None \<Rightarrow> Inl DanglingEntry
                 | Some e \<Rightarrow>
                     if is_loaded e
                     then Inr (h\<lparr>grid_is_loaded := True\<rparr>, emit (Unlock (EntryMutex k)) w2)
                     else
                       let w3 = emit (FileOpen path) w2;
                           e1 = (case readGrid ev path (name h) of
                                   Inr t \<Rightarrow> e\<lparr>grid := setTree (grid e) t\<rparr>
                                 | Inl what \<Rightarrow> e\<lparr>error_msg := what\<rparr>);
                           w4 = store k (e1\<lparr>is_loaded := True\<rparr>) w3
                       in Inr (h\<lparr>grid_is_loaded := True\<rparr>, emit (Unlock (EntryMutex k)) w4))))"

text \<open>\<^verbatim>\<open>VolumeGrid::unload\<close>.\<close>

definition unload :: "VolumeGrid \<Rightarrow> world \<Rightarrow> error + VolumeGrid \<times> world" where
  "unload h w =
    (case entry h of
       None \<Rightarrow> Inr (h, w)
     | Some k \<Rightarrow>
         if \<not> grid_is_loaded h then Inr (h, w)
         else
           (case change_to_metadata_user k (emit (Lock (EntryMutex k)) w) of
              Inl x \<Rightarrow> Inl x
            | Inr w2 \<Rightarrow> Inr (h\<lparr>grid_is_loaded := False\<rparr>, emit (Unlock (EntryMutex k)) w2)))"

text \<open>\<^verbatim>\<open>VolumeGrid::error_message\<close>; \<open>None\<close> is its \<^verbatim>\<open>NULL\<close>.\<close>

definition error_message :: "VolumeGrid \<Rightarrow> world \<Rightarrow> error + string option" where
  "error_message h w =
    (case entry h of
       None \<Rightarrow> Inr None
     | Some k \<Rightarrow>
         if \<not> grid_is_loaded h then Inr None
         else
           (case cache w k of
              None \<Rightarrow> Inl DanglingEntry
            | Some e \<Rightarrow> Inr (if error_msg e \<noteq> [] then Some (error_msg e) else None)))"

subsection \<open>Loading the grids of a volume\<close>

text \<open>
  \<^verbatim>\<open>volume_filepath_get\<close>: the volume's path made absolute and, for a sequence whose path
  has a frame number, the number replaced by \<^verbatim>\<open>runtime.frame\<close> in as many digits.
\<close>

definition volume_filepath_get :: "env \<Rightarrow> Volume \<Rightarrow> string" where
  "volume_filepath_get ev volume =
    (let r_filepath = BLI_path_abs ev (volume_filepath volume)
     in if \<not> is_sequence volume then r_filepath
        else
          (case BLI_path_frame_get ev r_filepath of
             None \<Rightarrow> r_filepath
           | Some (fframe, frame_len) \<Rightarrow>
               let (stripped, ext) = BLI_path_frame_strip ev r_filepath
               in BLI_path_extension_ensure ev
                    (BLI_path_frame ev stripped (runtime_frame volume) frame_len) ext))"

definition BKE_volume_is_loaded :: "Volume \<Rightarrow> bool" where
  "BKE_volume_is_loaded volume =
    (volume_filepath volume = [] \<or> grids_filepath (runtime_grids volume) \<noteq> [])"

text \<open>
  \<^verbatim>\<open>grids.emplace_back(template_entry)\<close>. The new handle is made by the constructor from
  a template entry. When the vector is full it moves to a larger array first: the handle
  type has a copy constructor and a destructor of its own and no move constructor, so every
  handle of the old array is copied, through \<open>copy_user\<close>, and then deleted, through
  \<open>remove_user\<close>. The order is that of libstdc++: the new element, the copies from first
  to last, the deletions from first to last.
\<close>

fun copy_grids :: "VolumeGrid list \<Rightarrow> world \<Rightarrow> error + world" where
  "copy_grids [] w = Inr w"
| "copy_grids (h # hs) w =
    (case VolumeGrid_copy h w of Inl err \<Rightarrow> Inl err | Inr (h1, w1) \<Rightarrow> copy_grids hs w1)"

fun delete_grids :: "VolumeGrid list \<Rightarrow> world \<Rightarrow> error + world" where
  "delete_grids [] w = Inr w"
| "delete_grids (h # hs) w =
    (case VolumeGrid_delete h w of Inl err \<Rightarrow> Inl err | Inr w1 \<Rightarrow> delete_grids hs w1)"

definition emplace_back ::
  "env \<Rightarrow> Entry \<Rightarrow> VolumeGridVector \<Rightarrow> world \<Rightarrow> error + VolumeGridVector \<times> world" where
  "emplace_back ev template_entry v w =
    (let (h, w1) = VolumeGrid_of_entry template_entry w
     in if length (grids v) < grids_capacity v then Inr (v\<lparr>grids := grids v @ [h]\<rparr>, w1)
        else
          (case copy_grids (grids v) w1 of
             Inl err \<Rightarrow> Inl err
           | Inr w2 \<Rightarrow>
               (case delete_grids (grids v) w2 of
                  Inl err \<Rightarrow> Inl err
                | Inr w3 \<Rightarrow>
                    Inr (v\<lparr>grids := grids v @ [h],
                           grids_capacity := vector_growth ev (length (grids v))\<rparr>, w3))))"

text \<open>
  The loop of \<^verbatim>\<open>BKE_volume_load\<close> over the grids read from the file: a null pointer is
  skipped, every other grid is emplaced at the back.
\<close>

fun emplace_grids ::
  "env \<Rightarrow> string \<Rightarrow> Grid option list \<Rightarrow> VolumeGridVector \<Rightarrow> world
    \<Rightarrow> error + VolumeGridVector \<times> world" where
  "emplace_grids ev path [] v w = Inr (v, w)"
| "emplace_grids ev path (None # vdb_grids) v w = emplace_grids ev path vdb_grids v w"
| "emplace_grids ev path (Some vdb_grid # vdb_grids) v w =
    (case emplace_back ev (Entry_new path vdb_grid) v w of
       Inl err \<Rightarrow> Inl err
     | Inr (v1, w1) \<Rightarrow> emplace_grids ev path vdb_grids v1 w1)"

text \<open>
  \<^verbatim>\<open>BKE_volume_load\<close>, returning the result, the volume and the world. Under the mutex the
  source repeats the test \<^verbatim>\<open>BKE_volume_is_loaded\<close>, which one thread finds as before, and
  it tests twice that the file exists.
\<close>

definition BKE_volume_load :: "env \<Rightarrow> Volume \<Rightarrow> world \<Rightarrow> error + bool \<times> Volume \<times> world" where
  "BKE_volume_load ev volume w =
    (let grids0 = runtime_grids volume
     in if runtime_frame volume = VOLUME_FRAME_NONE then Inr (True, volume, w)
        else if BKE_volume_is_loaded volume then Inr (grids_error_msg grids0 = [], volume, w)
        else
          let w1 = emit (Lock GridsMutex) w;
              path = volume_filepath_get ev volume;
              grids1 = grids0\<lparr>grids_filepath := path\<rparr>;
              w2 = emit (FileExists path) w1
          in if \<not> BLI_exists ev path
             then Inr (False,
                   volume\<lparr>runtime_grids :=
                     grids1\<lparr>grids_error_msg := BLI_split_file_part ev path @ '' not found''\<rparr>\<rparr>,
                   emit (Unlock GridsMutex) w2)
             else
               let w3 = emit (FileOpen path) (emit (FileExists path) w2);
                   (vdb_grids, grids2) =
                     (case readAllGridMetadata ev path of
                        Inr read \<Rightarrow> (read, grids1)
                      | Inl what \<Rightarrow> ([], grids1\<lparr>grids_error_msg := what\<rparr>))
               in (case emplace_grids ev path vdb_grids grids2 w3 of
                     Inl err \<Rightarrow> Inl err
                   | Inr (grids3, w4) \<Rightarrow>
                       Inr (grids_error_msg grids3 = [], volume\<lparr>runtime_grids := grids3\<rparr>,
                            emit (Unlock GridsMutex) w4)))"

subsection \<open>Operations, and what the properties speak of\<close>

text \<open>
  Every operation of the cache, of a grid handle and of a volume's grid vector that changes
  the world, as one type, so that a property of ``every operation'' has a statement.
\<close>

datatype operation =
    Add_metadata_user Entry
  | Copy_user key bool
  | Remove_user key bool
  | Change_to_tree_user key
  | Change_to_metadata_user key
  | Grid_new Entry
  | Grid_copy VolumeGrid
  | Grid_delete VolumeGrid
  | Grid_load string VolumeGrid
  | Grid_unload VolumeGrid
  | Volume_load Volume

definition world_of :: "error + 'a \<times> world \<Rightarrow> error + world" where
  "world_of r = (case r of Inl x \<Rightarrow> Inl x | Inr (a, w) \<Rightarrow> Inr w)"

fun perform :: "env \<Rightarrow> operation \<Rightarrow> world \<Rightarrow> error + world" where
  "perform ev (Add_metadata_user template_entry) w = Inr (snd (add_metadata_user template_entry w))"
| "perform ev (Copy_user k tree_user) w = copy_user k tree_user w"
| "perform ev (Remove_user k tree_user) w = remove_user k tree_user w"
| "perform ev (Change_to_tree_user k) w = change_to_tree_user k w"
| "perform ev (Change_to_metadata_user k) w = change_to_metadata_user k w"
| "perform ev (Grid_new template_entry) w = Inr (snd (VolumeGrid_of_entry template_entry w))"
| "perform ev (Grid_copy h) w = world_of (VolumeGrid_copy h w)"
| "perform ev (Grid_delete h) w = VolumeGrid_delete h w"
| "perform ev (Grid_load path h) w = world_of (load ev path h w)"
| "perform ev (Grid_unload h) w = world_of (unload h w)"
| "perform ev (Volume_load volume) w =
    (case BKE_volume_load ev volume w of Inl err \<Rightarrow> Inl err | Inr (ok, volume1, w1) \<Rightarrow> Inr w1)"

fun perform_all :: "env \<Rightarrow> operation list \<Rightarrow> world \<Rightarrow> error + world" where
  "perform_all ev [] w = Inr w"
| "perform_all ev (x # xs) w =
    (case perform ev x w of Inl err \<Rightarrow> Inl err | Inr w1 \<Rightarrow> perform_all ev xs w1)"

text \<open>Loading each handle of a list in turn, every one from the same file.\<close>

fun load_each :: "env \<Rightarrow> string \<Rightarrow> VolumeGrid list \<Rightarrow> world \<Rightarrow> error + world" where
  "load_each ev path [] w = Inr w"
| "load_each ev path (h # hs) w =
    (case load ev path h w of Inl err \<Rightarrow> Inl err | Inr (h1, w1) \<Rightarrow> load_each ev path hs w1)"

definition empty_world :: world where
  "empty_world = \<lparr>cache = Map.empty, trace = []\<rparr>"

text \<open>The invariant of the cache: every entry in it has a user.\<close>

definition cache_inv :: "world \<Rightarrow> bool" where
  "cache_inv w \<longleftrightarrow>
    (\<forall>k e. cache w k = Some e \<longrightarrow> 1 \<le> num_metadata_users e + num_tree_users e)"

text \<open>
  What a change of the user counts of the entry \<open>e\<close> at \<open>k\<close> to \<open>meta\<close> and \<open>tr\<close> leaves, from
  the world \<open>w\<close> to the world \<open>w'\<close>: the entry is gone exactly when the counts add up to 0; an
  entry that stays has the new counts, no tree and no \<open>is_loaded\<close> when \<open>tr\<close> is 0, and its
  grid and its \<open>is_loaded\<close> as before otherwise; no other entry is touched.
\<close>

definition counts_changed :: "key \<Rightarrow> Entry \<Rightarrow> int \<Rightarrow> int \<Rightarrow> world \<Rightarrow> world \<Rightarrow> bool" where
  "counts_changed k e meta tr w w' \<longleftrightarrow>
    (cache w' k = None \<longleftrightarrow> meta + tr = 0) \<and>
    (\<forall>e'. cache w' k = Some e' \<longrightarrow>
       num_metadata_users e' = meta \<and> num_tree_users e' = tr \<and>
       (tr = 0 \<longrightarrow> tree (grid e') = [] \<and> \<not> is_loaded e') \<and>
       (tr \<noteq> 0 \<longrightarrow> grid e' = grid e \<and> is_loaded e' = is_loaded e)) \<and>
    (\<forall>k'. k' \<noteq> k \<longrightarrow> cache w' k' = cache w k')"

text \<open>
  How many handles of a list are users of the entry at \<open>k\<close>, tree users (\<open>tree_user\<close>) or
  metadata users.
\<close>

definition users_in :: "key \<Rightarrow> bool \<Rightarrow> VolumeGrid list \<Rightarrow> int" where
  "users_in k tree_user hs =
    int (length (filter (\<lambda>h. entry h = Some k \<and> grid_is_loaded h = tree_user) hs))"

text \<open>
  An entry with a user and with no fewer tree users than none, as an entry of the cache is
  when every user is a handle, seen while a vector moves its handles: besides its users the
  entry counts \<open>tree_copies\<close> copies of tree users and \<open>metadata_copies\<close> copies of
  metadata users that are still to be deleted. An entry that is not loaded has no tree user
  besides the copies, and no tree.
\<close>

definition users_accounted :: "Entry \<Rightarrow> int \<Rightarrow> int \<Rightarrow> bool" where
  "users_accounted e tree_copies metadata_copies \<longleftrightarrow>
    1 + tree_copies + metadata_copies \<le> num_metadata_users e + num_tree_users e \<and>
    (if is_loaded e then tree_copies \<le> num_tree_users e
     else num_tree_users e = tree_copies \<and> tree (grid e) = [])"

text \<open>The paths of the files that a trace opens, in order.\<close>

definition file_opens :: "event list \<Rightarrow> string list" where
  "file_opens evs = [p. FileOpen p \<leftarrow> evs]"

text \<open>
  Two readings of a trace, each with the mutexes held when the trace starts, the last taken
  first. \<open>one_lock_at_a_time\<close>: a mutex is taken only when none is held, and no file is
  touched under the mutex of the cache. \<open>lock_discipline\<close>: a mutex is taken either when
  none is held, or when exactly one is held, that one is not the mutex of the cache and the
  mutex taken is the mutex of the cache; the mutex released is the one taken last; no file
  is touched under the mutex of the cache; and at the end no mutex is held.
\<close>

fun one_lock_at_a_time :: "mutex list \<Rightarrow> event list \<Rightarrow> bool" where
  "one_lock_at_a_time held [] = True"
| "one_lock_at_a_time held (Lock m # evs) = (held = [] \<and> one_lock_at_a_time (m # held) evs)"
| "one_lock_at_a_time held (Unlock m # evs) = one_lock_at_a_time (remove1 m held) evs"
| "one_lock_at_a_time held (FileExists p # evs) =
    (CacheMutex \<notin> set held \<and> one_lock_at_a_time held evs)"
| "one_lock_at_a_time held (FileOpen p # evs) =
    (CacheMutex \<notin> set held \<and> one_lock_at_a_time held evs)"

fun lock_discipline :: "mutex list \<Rightarrow> event list \<Rightarrow> bool" where
  "lock_discipline held [] = (held = [])"
| "lock_discipline held (Lock m # evs) =
    ((case held of
        [] \<Rightarrow> True
      | h # hs \<Rightarrow> hs = [] \<and> h \<noteq> CacheMutex \<and> m = CacheMutex)
     \<and> lock_discipline (m # held) evs)"
| "lock_discipline held (Unlock m # evs) =
    (case held of [] \<Rightarrow> False | h # hs \<Rightarrow> h = m \<and> lock_discipline hs evs)"
| "lock_discipline held (FileExists p # evs) =
    (CacheMutex \<notin> set held \<and> lock_discipline held evs)"
| "lock_discipline held (FileOpen p # evs) =
    (CacheMutex \<notin> set held \<and> lock_discipline held evs)"

text \<open>
  The events of an operation that returns: what it appends to the trace of the world it
  starts in.
\<close>

definition emitted :: "env \<Rightarrow> operation \<Rightarrow> world \<Rightarrow> event list option" where
  "emitted ev x w =
    (case perform ev x w of
       Inl err \<Rightarrow> None
     | Inr w' \<Rightarrow> Some (drop (length (trace w)) (trace w')))"

subsection \<open>Example data\<close>

definition density :: Grid where
  "density = \<lparr>getName = ''density'', tree = []\<rparr>"

definition heat :: Grid where
  "heat = \<lparr>getName = ''heat'', tree = []\<rparr>"

text \<open>
  A file system with the one file \<^verbatim>\<open>/shots/smoke.vdb\<close>. It lists a density grid, a null
  pointer and a heat grid; the tree of the density grid can be read, reading any other
  grid throws an \<^verbatim>\<open>IoError\<close>. Paths hold no frame number. A full vector doubles its
  capacity, as with libstdc++.
\<close>

definition demo_env :: env where
  "demo_env =
    \<lparr>BLI_path_abs = (\<lambda>p. if take 2 p = ''//'' then ''/shots/'' @ drop 2 p else p),
     BLI_path_frame_get = (\<lambda>p. None),
     BLI_path_frame_strip = (\<lambda>p. (p, [])),
     BLI_path_frame = (\<lambda>p frame digits. p),
     BLI_path_extension_ensure = (\<lambda>p ext. p @ ext),
     BLI_split_file_part = (\<lambda>p. rev (takeWhile (\<lambda>c. c \<noteq> CHR ''/'') (rev p))),
     BLI_exists = (\<lambda>p. p = ''/shots/smoke.vdb''),
     readAllGridMetadata =
       (\<lambda>p. if p = ''/shots/smoke.vdb'' then Inr [Some density, None, Some heat]
            else Inl ''cannot open''),
     readGrid =
       (\<lambda>p n. if p = ''/shots/smoke.vdb'' \<and> n = ''density'' then Inr [3, 1, 4]
              else Inl ''cannot read grid''),
     vector_growth = (\<lambda>n. max 1 (2 * n))\<rparr>"

text \<open>A volume on a file, nothing loaded, at frame 1.\<close>

definition file_volume :: "string \<Rightarrow> Volume" where
  "file_volume path =
    \<lparr>volume_filepath = path, is_sequence = False, sequence_mode = VOLUME_SEQUENCE_CLIP,
     frame_duration = 0, frame_start = 1, frame_offset = 0, active_grid = 0, runtime_frame = 1,
     runtime_grids = \<lparr>grids = [], grids_capacity = 0, grids_filepath = [], grids_error_msg = []\<rparr>\<rparr>"

text \<open>
  The world after that file was loaded into one volume: an entry for each of the two grids,
  each with one metadata user, and the two handles of the volume.
\<close>

definition density_key :: key where
  "density_key = (''/shots/smoke.vdb'', ''density'')"

definition heat_key :: key where
  "heat_key = (''/shots/smoke.vdb'', ''heat'')"

definition density_entry :: Entry where
  "density_entry = (Entry_new ''/shots/smoke.vdb'' density)\<lparr>num_metadata_users := 1\<rparr>"

definition heat_entry :: Entry where
  "heat_entry = (Entry_new ''/shots/smoke.vdb'' heat)\<lparr>num_metadata_users := 1\<rparr>"

definition demo_world :: world where
  "demo_world = store heat_key heat_entry (store density_key density_entry empty_world)"

definition density_handle :: VolumeGrid where
  "density_handle = \<lparr>vdb = density, entry = Some density_key, grid_is_loaded = False\<rparr>"

definition heat_handle :: VolumeGrid where
  "heat_handle = \<lparr>vdb = heat, entry = Some heat_key, grid_is_loaded = False\<rparr>"

text \<open>
  The example world with a second handle on the density grid that has loaded its tree: the
  entry has one metadata user and one tree user.
\<close>

definition loaded_entry :: Entry where
  "loaded_entry =
    density_entry\<lparr>grid := setTree density [3, 1, 4], is_loaded := True, num_tree_users := 1\<rparr>"

definition loaded_world :: world where
  "loaded_world = store density_key loaded_entry demo_world"

text \<open>
  A world whose entry for the density grid has a metadata user and is still loaded with no
  tree user: a state that no operation leaves, and that the properties do not exclude.
\<close>

definition unevicted_entry :: Entry where
  "unevicted_entry = loaded_entry\<lparr>num_tree_users := 0\<rparr>"

definition unevicted_world :: world where
  "unevicted_world = store density_key unevicted_entry empty_world"

text \<open>A volume holding a density and a heat grid, its active-grid index out of range.\<close>

definition two_grid_volume :: "int \<Rightarrow> Volume" where
  "two_grid_volume active =
    (sequence_volume VOLUME_SEQUENCE_CLIP 0 1 0)
      \<lparr>active_grid := active,
       runtime_grids :=
         \<lparr>grids = [VolumeGrid_of_vdb \<lparr>getName = ''density'', tree = []\<rparr>,
                   VolumeGrid_of_vdb \<lparr>getName = ''heat'', tree = []\<rparr>],
          grids_capacity = 2, grids_filepath = [], grids_error_msg = []\<rparr>\<rparr>"

section \<open>Properties\<close>

subsection \<open>Integer helpers\<close>

lemma int32_id: "- 2147483648 \<le> x \<Longrightarrow> x \<le> 2147483647 \<Longrightarrow> int32 x = x"
  by (simp add: int32_def)

lemma c_rem_bounds: "0 < b \<Longrightarrow> - b < c_rem a b \<and> c_rem a b < b"
proof -
  assume b: "0 < b"
  have m: "0 \<le> \<bar>a\<bar> mod b \<and> \<bar>a\<bar> mod b < b" using b by simp
  show ?thesis
  proof (cases "a < 0")
    case True
    then have "c_rem a b = - (\<bar>a\<bar> mod b)" using b by (simp add: c_rem_def)
    with m show ?thesis by linarith
  next
    case False
    then have "c_rem a b = (\<bar>a\<bar> mod b) \<or> c_rem a b = 0"
      using b by (cases "a = 0") (simp_all add: c_rem_def)
    with m b show ?thesis by linarith
  qed
qed

subsection \<open>Sequence frames\<close>

text \<open>
  Claim C1. With \<open>frame_duration = 10\<close>, \<open>frame_start = 1\<close>, \<open>frame_offset = 0\<close>: in Clip mode
  scene time 15 resolves to the no-frame sentinel, in Extend mode scene time 15 resolves to
  frame 10, in Repeat mode scene time 21 resolves to frame 1, in PingPong mode scene time 19
  resolves to frame 1 and scene time 28 to frame 10.
\<close>

theorem volume_sequence_frame_golden_cases:
  "volume_sequence_frame 15 (sequence_volume VOLUME_SEQUENCE_CLIP 10 1 0) = Inr VOLUME_FRAME_NONE
   \<and> volume_sequence_frame 15 (sequence_volume VOLUME_SEQUENCE_EXTEND 10 1 0) = Inr 10
   \<and> volume_sequence_frame 21 (sequence_volume VOLUME_SEQUENCE_REPEAT 10 1 0) = Inr 1
   \<and> volume_sequence_frame 19 (sequence_volume VOLUME_SEQUENCE_PING_PONG 10 1 0) = Inr 1
   \<and> volume_sequence_frame 28 (sequence_volume VOLUME_SEQUENCE_PING_PONG 10 1 0) = Inr 10"
proof (intro conjI)
  show "volume_sequence_frame 15 (sequence_volume VOLUME_SEQUENCE_CLIP 10 1 0) = Inr VOLUME_FRAME_NONE"
    by code_simp
  show "volume_sequence_frame 15 (sequence_volume VOLUME_SEQUENCE_EXTEND 10 1 0) = Inr 10"
    by code_simp
  show "volume_sequence_frame 21 (sequence_volume VOLUME_SEQUENCE_REPEAT 10 1 0) = Inr 1"
    by code_simp
  show "volume_sequence_frame 19 (sequence_volume VOLUME_SEQUENCE_PING_PONG 10 1 0) = Inr 1"
    by code_simp
  show "volume_sequence_frame 28 (sequence_volume VOLUME_SEQUENCE_PING_PONG 10 1 0) = Inr 10"
    by code_simp
qed

text \<open>
  In PingPong mode a duration from 2 up (and small enough that twice the duration is an
  \<^verbatim>\<open>int\<close>) has a period of at least 2, so that the remainder is defined, and the frame lies
  between 1 and the duration. The offset is 0 here, so the result is the folded frame itself.
\<close>

lemma ping_pong_in_range:
  assumes d: "2 \<le> frame_duration volume" "frame_duration volume < 1073741824"
    and s: "is_sequence volume" "sequence_mode volume = VOLUME_SEQUENCE_PING_PONG"
      "frame_offset volume = 0"
  shows "\<exists>f. volume_sequence_frame t volume = Inr f \<and> 1 \<le> f \<and> f \<le> frame_duration volume"
proof -
  define dur where "dur = frame_duration volume"
  define frame where "frame = int32 (int32 (t - frame_start volume) + 1)"
  define p where "p = 2 * dur - 2"
  have p: "int32 (int32 (dur * 2) - 2) = p" "2 \<le> p"
    using d by (simp_all add: int32_id p_def dur_def)
  define f1 where "f1 = c_rem frame p"
  have f1: "- p < f1" "f1 < p"
    using c_rem_bounds[of p frame] p by (simp_all add: f1_def)
  have r: "rem_int frame p = Inr f1"
    using p by (simp add: rem_int_def f1_def)
  define f2 where "f2 = (if f1 < 0 then int32 (f1 + p) else f1)"
  have f2: "0 \<le> f2" "f2 < p"
    using f1 d by (auto simp: f2_def int32_id p_def dur_def)
  define f3 where "f3 = (if f2 = 0 then p else f2)"
  have f3: "1 \<le> f3" "f3 \<le> p"
    using f2 p by (auto simp: f3_def)
  define f4 where "f4 = (if f3 > dur then int32 (int32 (dur * 2) - f3) else f3)"
  have f4: "1 \<le> f4" "f4 \<le> dur"
    using f3 d by (auto simp: f4_def int32_id p_def dur_def)
  have "volume_sequence_frame t volume = Inr (int32 (f4 + 0))"
    using s d p r [unfolded frame_def]
    by (simp add: volume_sequence_frame_def Let_def f4_def f3_def f2_def dur_def)
  moreover have "int32 (f4 + 0) = f4"
    using f4 d by (simp add: int32_id dur_def)
  ultimately show ?thesis
    using f4 by (simp add: dur_def)
qed

text \<open>
  The other undefined remainder: in Repeat mode with a duration of \<open>-1\<close>, at the scene time
  whose frame is \<open>INT_MIN\<close>.
\<close>

lemma repeat_remainder_overflow:
  "volume_sequence_frame (- 2147483648) (sequence_volume VOLUME_SEQUENCE_REPEAT (- 1) 1 0)
    = Inl RemainderOverflow"
  by code_simp

text \<open>
  At a duration of 1 the period is 0, whatever the scene time, the start and the offset.
\<close>

lemma ping_pong_duration_one:
  assumes "is_sequence volume" "sequence_mode volume = VOLUME_SEQUENCE_PING_PONG"
    "frame_duration volume = 1"
  shows "volume_sequence_frame t volume = Inl DivisionByZero"
  using assms by (simp add: volume_sequence_frame_def rem_int_def int32_id)

text \<open>
  Claim C8. For every input with \<open>frame_duration \<ge> 1\<close> in PingPong mode the period
  \<open>2 * frame_duration - 2\<close> that the remainder divides by is nonzero. At \<open>frame_duration = 1\<close>
  the period is 0 and the source computes \<^verbatim>\<open>frame % 0\<close>: the claim fails there.
\<close>

theorem ping_pong_duration_one_divides_by_zero:
  "volume_sequence_frame 5 (sequence_volume VOLUME_SEQUENCE_PING_PONG 1 1 0) = Inl DivisionByZero"
  by code_simp

subsection \<open>The active grid\<close>

text \<open>
  Claim C10. \<^verbatim>\<open>BKE_volume_grid_active_get\<close> returns null exactly when the volume has no
  grids; for a volume with at least one grid it returns the grid at index
  \<open>clamp_i active_grid 0 (num_grids - 1)\<close>, which is in bounds also when \<open>active_grid\<close> is
  negative or too large. The number of grids is one that \<^verbatim>\<open>int\<close> holds.
\<close>

theorem active_grid_clamped:
  assumes "length (grids (runtime_grids volume)) \<le> 2147483647"
  shows "(BKE_volume_grid_active_get volume = Inr None \<longleftrightarrow> grids (runtime_grids volume) = [])
   \<and> (grids (runtime_grids volume) \<noteq> [] \<longrightarrow>
        (let i = clamp_i (active_grid volume) 0 (int (length (grids (runtime_grids volume))) - 1)
         in 0 \<le> i \<and> i < int (length (grids (runtime_grids volume))) \<and>
            BKE_volume_grid_active_get volume = Inr (Some (grids (runtime_grids volume) ! nat i))))"
proof -
  define gs where "gs = grids (runtime_grids volume)"
  define n where "n = int (length gs)"
  have n: "0 \<le> n" "n \<le> 2147483647"
    using assms by (simp_all add: n_def gs_def)
  have num: "BKE_volume_num_grids volume = n"
    using n by (simp add: BKE_volume_num_grids_def int32_id n_def gs_def)
  show ?thesis
  proof (cases "gs = []")
    case True
    then show ?thesis
      using num by (simp add: BKE_volume_grid_active_get_def n_def gs_def)
  next
    case False
    then have pos: "1 \<le> n"
      by (cases gs) (simp_all add: n_def)
    define i where "i = clamp_i (active_grid volume) 0 (n - 1)"
    have i: "0 \<le> i" "i < n"
      using pos by (simp_all add: i_def clamp_i_def)
    have "int32 (n - 1) = n - 1"
      using pos n by (simp add: int32_id)
    then have "BKE_volume_grid_active_get volume = Inr (Some (gs ! nat i))"
      using num pos i False
      by (simp add: BKE_volume_grid_active_get_def BKE_volume_grid_get_def i_def n_def gs_def)
    then show ?thesis
      using False i by (simp add: Let_def i_def n_def gs_def)
  qed
qed

theorem active_grid_clamped_witness:
  "length (grids (runtime_grids (two_grid_volume 7))) \<le> 2147483647
   \<and> BKE_volume_grid_active_get (two_grid_volume 7)
       = Inr (Some (VolumeGrid_of_vdb \<lparr>getName = ''heat'', tree = []\<rparr>))
   \<and> BKE_volume_grid_active_get (two_grid_volume (- 3))
       = Inr (Some (VolumeGrid_of_vdb \<lparr>getName = ''density'', tree = []\<rparr>))"
proof -
  have len: "length (grids (runtime_grids (two_grid_volume a))) \<le> 2147483647" for a
    by (simp add: two_grid_volume_def)
  show ?thesis
    using active_grid_clamped [OF len, of 7] active_grid_clamped [OF len, of "- 3"]
    by (simp add: two_grid_volume_def clamp_i_def Let_def)
qed

subsection \<open>The world and the example data\<close>

lemma cache_emit [simp]: "cache (emit ev w) = cache w"
  by (simp add: emit_def)

lemma trace_emit [simp]: "trace (emit ev w) = trace w @ [ev]"
  by (simp add: emit_def)

lemma cache_store [simp]: "cache (store k e w) = (cache w)(k \<mapsto> e)"
  by (simp add: store_def)

lemma trace_store [simp]: "trace (store k e w) = trace w"
  by (simp add: store_def)

lemma cache_erase [simp]: "cache (erase k w) = (cache w)(k := None)"
  by (simp add: erase_def)

lemma trace_erase [simp]: "trace (erase k w) = trace w"
  by (simp add: erase_def)

lemmas demo_defs = demo_world_def empty_world_def density_key_def heat_key_def density_entry_def
  heat_entry_def density_handle_def heat_handle_def density_def heat_def Entry_new_def

text \<open>
  What \<open>emplace_back\<close> and the loop leave of the vector's own members.
\<close>

lemma emplace_back_members:
  assumes "emplace_back ev t v w = Inr (v1, w1)"
  shows "grids_filepath v1 = grids_filepath v \<and> grids_error_msg v1 = grids_error_msg v"
  using assms
  by (auto simp: emplace_back_def Let_def split_def split: if_splits sum.splits)

lemma emplace_grids_members:
  "emplace_grids ev path vs v w = Inr (v1, w1)
    \<Longrightarrow> grids_filepath v1 = grids_filepath v \<and> grids_error_msg v1 = grids_error_msg v"
proof (induction ev path vs v w rule: emplace_grids.induct)
  case (3 ev path vdb_grid vdb_grids v w)
  then obtain v2 w2 where e: "emplace_back ev (Entry_new path vdb_grid) v w = Inr (v2, w2)"
    and r: "emplace_grids ev path vdb_grids v2 w2 = Inr (v1, w1)"
    by (auto split: sum.splits)
  from "3.IH" [OF e refl r] emplace_back_members [OF e] show ?case by simp
qed simp_all

text \<open>
  \<^verbatim>\<open>BKE_volume_load\<close> past its tests, the file there: the loop over the grids read, on the
  vector with the path recorded and, if the read failed, its error.
\<close>

lemma BKE_volume_load_loop:
  assumes "runtime_frame volume \<noteq> VOLUME_FRAME_NONE" "\<not> BKE_volume_is_loaded volume"
    "BLI_exists ev (volume_filepath_get ev volume)"
  shows "\<exists>vs v. grids_filepath v = volume_filepath_get ev volume \<and>
    BKE_volume_load ev volume w =
      (case emplace_grids ev (volume_filepath_get ev volume) vs v
              (emit (FileOpen (volume_filepath_get ev volume))
                (emit (FileExists (volume_filepath_get ev volume))
                  (emit (FileExists (volume_filepath_get ev volume))
                    (emit (Lock GridsMutex) w)))) of
         Inl err \<Rightarrow> Inl err
       | Inr (grids3, w4) \<Rightarrow>
           Inr (grids_error_msg grids3 = [], volume\<lparr>runtime_grids := grids3\<rparr>,
                emit (Unlock GridsMutex) w4))"
proof (cases "readAllGridMetadata ev (volume_filepath_get ev volume)")
  case (Inl what)
  show ?thesis
    by (intro exI [of _ "[]"]
        exI [of _ "(runtime_grids volume)\<lparr>grids_filepath := volume_filepath_get ev volume,
                     grids_error_msg := what\<rparr>"])
      (use assms Inl in \<open>simp add: BKE_volume_load_def Let_def\<close>)
next
  case (Inr read)
  show ?thesis
    by (intro exI [of _ read]
        exI [of _ "(runtime_grids volume)\<lparr>grids_filepath := volume_filepath_get ev volume\<rparr>"])
      (use assms Inr in \<open>simp add: BKE_volume_load_def Let_def\<close>)
qed

text \<open>
  Loading the example file into a fresh volume succeeds and gives the example world and its
  two handles; the null pointer read from the file is skipped. The vector grows twice, and
  the second time copies and deletes the handle of the density grid: the mutex of the cache
  is taken four times.
\<close>

lemma demo_path:
  "volume_filepath_get demo_env (file_volume ''//smoke.vdb'') = ''/shots/smoke.vdb''"
  by (simp add: demo_env_def file_volume_def volume_filepath_get_def)

lemma demo_load:
  "\<exists>volume1 w1.
     BKE_volume_load demo_env (file_volume ''//smoke.vdb'') empty_world = Inr (True, volume1, w1)
     \<and> grids (runtime_grids volume1) = [density_handle, heat_handle]
     \<and> grids_capacity (runtime_grids volume1) = 2
     \<and> grids_filepath (runtime_grids volume1) = ''/shots/smoke.vdb''
     \<and> grids_error_msg (runtime_grids volume1) = []
     \<and> runtime_frame volume1 = 1
     \<and> cache w1 = cache demo_world
     \<and> trace w1 =
         [Lock GridsMutex, FileExists ''/shots/smoke.vdb'', FileExists ''/shots/smoke.vdb'',
          FileOpen ''/shots/smoke.vdb'', Lock CacheMutex, Unlock CacheMutex, Lock CacheMutex,
          Unlock CacheMutex, Lock CacheMutex, Unlock CacheMutex, Lock CacheMutex,
          Unlock CacheMutex, Unlock GridsMutex]"
  by (simp add: BKE_volume_load_def demo_env_def file_volume_def BKE_volume_is_loaded_def
      VOLUME_FRAME_NONE_def INT_MAX_def volume_filepath_get_def Let_def VolumeGrid_of_entry_def
      add_metadata_user_def entry_key_def Entry_copy_def demo_defs split_def emplace_back_def
      VolumeGrid_copy_def copy_user_def VolumeGrid_delete_def remove_user_def
      update_for_remove_user_def clear_def fun_eq_iff)

subsection \<open>Grid handles\<close>

text \<open>A load or an unload of a handle whose entry is in the cache returns.\<close>

lemma load_returns:
  assumes "entry h = Some k" "cache w k = Some e"
    "num_metadata_users e + num_tree_users e \<noteq> 0"
  shows "\<exists>w1. load ev path h w = Inr (h\<lparr>grid_is_loaded := True\<rparr>, w1)"
proof (cases "grid_is_loaded h")
  case True
  then have "h\<lparr>grid_is_loaded := True\<rparr> = h" by simp
  then show ?thesis using True assms by (simp add: load_def)
next
  case False
  then show ?thesis
    using assms
    by (simp add: load_def change_to_tree_user_def update_for_remove_user_def Let_def)
qed

lemma unload_returns:
  assumes "entry h = Some k" "cache w k = Some e"
  shows "\<exists>w1. unload h w = Inr (h\<lparr>grid_is_loaded := False\<rparr>, w1)"
proof (cases "grid_is_loaded h")
  case False
  then have "h\<lparr>grid_is_loaded := False\<rparr> = h" by simp
  then show ?thesis using False assms by (simp add: unload_def)
next
  case True
  then show ?thesis
    using assms by (simp add: unload_def change_to_metadata_user_def Let_def)
qed

text \<open>
  Claim C6. Copying a handle with an entry increments exactly one counter of that entry,
  \<open>num_tree_users\<close> if the handle's \<open>is_loaded\<close> is set and \<open>num_metadata_users\<close> otherwise,
  and leaves every other entry alone; the copy has the entry pointer and the \<open>is_loaded\<close> of
  the source (it is the same record). Copying a handle with a null entry changes nothing in
  the world.
\<close>

theorem grid_copy_counts_one_user:
  "(entry h = Some k \<longrightarrow> cache w k = Some e \<longrightarrow>
      (\<exists>w'. VolumeGrid_copy h w = Inr (h, w') \<and>
         cache w' k = Some (if grid_is_loaded h
                            then e\<lparr>num_tree_users := num_tree_users e + 1\<rparr>
                            else e\<lparr>num_metadata_users := num_metadata_users e + 1\<rparr>) \<and>
         (\<forall>k'. k' \<noteq> k \<longrightarrow> cache w' k' = cache w k')))
   \<and> (entry h = None \<longrightarrow> VolumeGrid_copy h w = Inr (h, w))"
  by (simp add: VolumeGrid_copy_def copy_user_def)

theorem grid_copy_counts_one_user_witness:
  "entry density_handle = Some density_key \<and> cache demo_world density_key = Some density_entry
   \<and> (\<exists>w'. VolumeGrid_copy density_handle demo_world = Inr (density_handle, w') \<and>
        cache w' density_key = Some (density_entry\<lparr>num_metadata_users := 2\<rparr>) \<and>
        cache w' heat_key = Some heat_entry)
   \<and> entry (VolumeGrid_of_vdb density) = None
   \<and> VolumeGrid_copy (VolumeGrid_of_vdb density) demo_world
       = Inr (VolumeGrid_of_vdb density, demo_world)"
proof -
  have a: "entry density_handle = Some density_key"
    "cache demo_world density_key = Some density_entry"
    "entry (VolumeGrid_of_vdb density) = None" "\<not> grid_is_loaded density_handle"
    "heat_key \<noteq> density_key" "cache demo_world heat_key = Some heat_entry"
    "num_metadata_users density_entry = 1"
    by (simp_all add: demo_defs VolumeGrid_of_vdb_def)
  show ?thesis
    using grid_copy_counts_one_user [of density_handle density_key demo_world density_entry]
      grid_copy_counts_one_user [of "VolumeGrid_of_vdb density" density_key demo_world density_entry]
      a
    by (auto simp: heat_key_def density_key_def)
qed

text \<open>
  Claim C7. A load of a handle whose \<open>is_loaded\<close> is set, or whose entry is null, changes
  neither the handle nor the world (no counter, no file, no mutex); so does an unload of a
  handle whose \<open>is_loaded\<close> is not set, or whose entry is null. Hence a load that follows a
  load, and an unload that follows an unload, changes nothing: a handle goes from metadata
  user to tree user at most once until it is unloaded.
\<close>

theorem grid_load_unload_idempotent:
  "(grid_is_loaded h \<or> entry h = None \<longrightarrow> load ev path h w = Inr (h, w)) \<and>
   (\<not> grid_is_loaded h \<or> entry h = None \<longrightarrow> unload h w = Inr (h, w)) \<and>
   (load ev path h w = Inr (h1, w1) \<longrightarrow> load ev path2 h1 w1 = Inr (h1, w1)) \<and>
   (unload h w = Inr (h1, w1) \<longrightarrow> unload h1 w1 = Inr (h1, w1))"
proof (intro conjI impI)
  assume "grid_is_loaded h \<or> entry h = None"
  then show "load ev path h w = Inr (h, w)"
    by (auto simp: load_def split: option.splits)
next
  assume "\<not> grid_is_loaded h \<or> entry h = None"
  then show "unload h w = Inr (h, w)"
    by (auto simp: unload_def split: option.splits)
next
  assume "load ev path h w = Inr (h1, w1)"
  then have "grid_is_loaded h1 \<or> entry h1 = None"
    by (auto simp: load_def Let_def split: option.splits if_splits sum.splits)
  then show "load ev path2 h1 w1 = Inr (h1, w1)"
    by (auto simp: load_def split: option.splits)
next
  assume "unload h w = Inr (h1, w1)"
  then have "\<not> grid_is_loaded h1 \<or> entry h1 = None"
    by (auto simp: unload_def Let_def split: option.splits if_splits sum.splits)
  then show "unload h1 w1 = Inr (h1, w1)"
    by (auto simp: unload_def split: option.splits)
qed

theorem grid_load_unload_idempotent_witness:
  "\<not> grid_is_loaded density_handle \<and> entry density_handle = Some density_key
   \<and> unload density_handle demo_world = Inr (density_handle, demo_world)
   \<and> (\<exists>h1 w1. load demo_env ''/shots/smoke.vdb'' density_handle demo_world = Inr (h1, w1)
        \<and> grid_is_loaded h1 \<and> entry h1 = Some density_key
        \<and> load demo_env ''/shots/smoke.vdb'' h1 w1 = Inr (h1, w1)
        \<and> (\<exists>h2 w2. unload h1 w1 = Inr (h2, w2) \<and> unload h2 w2 = Inr (h2, w2)))"
proof -
  have a: "\<not> grid_is_loaded density_handle" "entry density_handle = Some density_key"
    "cache demo_world density_key = Some density_entry"
    "num_metadata_users density_entry + num_tree_users density_entry \<noteq> 0"
    by (simp_all add: demo_defs)
  obtain w1 where l: "load demo_env ''/shots/smoke.vdb'' density_handle demo_world
      = Inr (density_handle\<lparr>grid_is_loaded := True\<rparr>, w1)"
    using load_returns [OF a(2) a(3) a(4)] by blast
  define h1 where "h1 = density_handle\<lparr>grid_is_loaded := True\<rparr>"
  have h1: "grid_is_loaded h1" "entry h1 = Some density_key"
    by (simp_all add: h1_def a)
  have again: "load demo_env ''/shots/smoke.vdb'' h1 w1 = Inr (h1, w1)"
    using grid_load_unload_idempotent [of density_handle demo_env "''/shots/smoke.vdb''"
        demo_world h1 w1 "''/shots/smoke.vdb''"] l
    by (simp add: h1_def)
  have "cache w1 density_key \<noteq> None"
    using l a
    by (auto simp: load_def change_to_tree_user_def update_for_remove_user_def Let_def
        split: if_splits sum.splits)
  then obtain e1 where "cache w1 density_key = Some e1" by blast
  then obtain w2 where u: "unload h1 w1 = Inr (h1\<lparr>grid_is_loaded := False\<rparr>, w2)"
    using unload_returns [OF h1(2)] by blast
  have "unload (h1\<lparr>grid_is_loaded := False\<rparr>) w2 = Inr (h1\<lparr>grid_is_loaded := False\<rparr>, w2)"
    using grid_load_unload_idempotent [of h1 demo_env "[]" w1 "h1\<lparr>grid_is_loaded := False\<rparr>" w2 "[]"] u
    by simp
  moreover have "unload density_handle demo_world = Inr (density_handle, demo_world)"
    using grid_load_unload_idempotent [of density_handle demo_env "[]" demo_world
        density_handle demo_world "[]"] a
    by simp
  ultimately show ?thesis
    using a l h1 again u by (auto simp: h1_def)
qed

subsection \<open>The invariant of the cache\<close>

lemma cache_invI:
  "(\<And>k e. cache w k = Some e \<Longrightarrow> 1 \<le> num_metadata_users e + num_tree_users e) \<Longrightarrow> cache_inv w"
  unfolding cache_inv_def by blast

lemma cache_inv_lookup:
  "cache_inv w \<Longrightarrow> cache w k = Some e \<Longrightarrow> 1 \<le> num_metadata_users e + num_tree_users e"
  unfolding cache_inv_def by blast

lemma cache_inv_store:
  assumes "cache_inv w" "1 \<le> num_metadata_users e + num_tree_users e"
  shows "cache_inv (store k e w)"
proof (rule cache_invI)
  fix k' e'
  assume "cache (store k e w) k' = Some e'"
  then show "1 \<le> num_metadata_users e' + num_tree_users e'"
    using assms cache_inv_lookup [of w k' e'] by (cases "k' = k") simp_all
qed

lemma cache_inv_erase:
  assumes "cache_inv w"
  shows "cache_inv (erase k w)"
proof (rule cache_invI)
  fix k' e'
  assume "cache (erase k w) k' = Some e'"
  then show "1 \<le> num_metadata_users e' + num_tree_users e'"
    using assms cache_inv_lookup [of w k' e'] by (cases "k' = k") simp_all
qed

lemma cache_inv_emit [simp]: "cache_inv (emit ev w) = cache_inv w"
  by (simp add: cache_inv_def)

lemma cache_inv_update_for_remove_user:
  "cache_inv w \<Longrightarrow> 0 \<le> num_metadata_users e + num_tree_users e
    \<Longrightarrow> cache_inv (update_for_remove_user k e w)"
  by (simp add: update_for_remove_user_def cache_inv_store cache_inv_erase)

lemma cache_inv_add_metadata_user:
  assumes "cache_inv w"
  shows "cache_inv (snd (add_metadata_user t w))"
proof (cases "cache w (entry_key t)")
  case None
  then show ?thesis
    using assms by (simp add: add_metadata_user_def Let_def Entry_copy_def cache_inv_store)
next
  case (Some e)
  then show ?thesis
    using assms cache_inv_lookup [OF assms Some]
    by (simp add: add_metadata_user_def Let_def cache_inv_store)
qed

lemma cache_inv_copy_user:
  assumes "cache_inv w" "copy_user k b w = Inr w'"
  shows "cache_inv w'"
proof (cases "cache w k")
  case None
  then show ?thesis using assms by (simp add: copy_user_def)
next
  case (Some e)
  then show ?thesis
    using assms cache_inv_lookup [OF assms(1) Some]
    by (auto simp: copy_user_def Let_def cache_inv_store)
qed

lemma cache_inv_remove_user:
  assumes "cache_inv w" "remove_user k b w = Inr w'"
  shows "cache_inv w'"
proof (cases "cache w k")
  case None
  then show ?thesis using assms by (simp add: remove_user_def)
next
  case (Some e)
  then show ?thesis
    using assms cache_inv_lookup [OF assms(1) Some]
    by (auto simp: remove_user_def Let_def cache_inv_update_for_remove_user)
qed

lemma cache_inv_change_to_tree_user:
  assumes "cache_inv w" "change_to_tree_user k w = Inr w'"
  shows "cache_inv w'"
proof (cases "cache w k")
  case None
  then show ?thesis using assms by (simp add: change_to_tree_user_def)
next
  case (Some e)
  then show ?thesis
    using assms cache_inv_lookup [OF assms(1) Some]
    by (auto simp: change_to_tree_user_def Let_def cache_inv_update_for_remove_user)
qed

lemma cache_inv_change_to_metadata_user:
  assumes "cache_inv w" "change_to_metadata_user k w = Inr w'"
  shows "cache_inv w'"
proof (cases "cache w k")
  case None
  then show ?thesis using assms by (simp add: change_to_metadata_user_def)
next
  case (Some e)
  then show ?thesis
    using assms cache_inv_lookup [OF assms(1) Some]
    by (auto simp: change_to_metadata_user_def Let_def cache_inv_update_for_remove_user)
qed

lemma cache_inv_VolumeGrid_of_entry:
  "cache_inv w \<Longrightarrow> cache_inv (snd (VolumeGrid_of_entry t w))"
  using cache_inv_add_metadata_user [of w t]
  by (simp add: VolumeGrid_of_entry_def split_def Let_def)

lemma cache_inv_load:
  assumes "cache_inv w" "load ev path h w = Inr (h1, w1)"
  shows "cache_inv w1"
proof (cases "entry h")
  case None
  then show ?thesis using assms by (simp add: load_def)
next
  case (Some k)
  show ?thesis
  proof (cases "grid_is_loaded h")
    case True
    then show ?thesis using assms Some by (simp add: load_def)
  next
    case False
    then obtain w2 where c: "change_to_tree_user k (emit (Lock (EntryMutex k)) w) = Inr w2"
      using assms Some by (auto simp: load_def split: sum.splits)
    then have i2: "cache_inv w2"
      using cache_inv_change_to_tree_user [of "emit (Lock (EntryMutex k)) w" k w2] assms by simp
    obtain e where e: "cache w2 k = Some e"
      using assms Some False c by (auto simp: load_def split: option.splits)
    have s: "1 \<le> num_metadata_users e + num_tree_users e"
      using cache_inv_lookup [OF i2 e] .
    show ?thesis
      using assms Some False c e i2 s
      by (auto simp: load_def Let_def split: if_splits sum.splits intro!: cache_inv_store)
  qed
qed

lemma cache_inv_unload:
  assumes "cache_inv w" "unload h w = Inr (h1, w1)"
  shows "cache_inv w1"
proof (cases "entry h")
  case None
  then show ?thesis using assms by (simp add: unload_def)
next
  case (Some k)
  show ?thesis
  proof (cases "grid_is_loaded h")
    case False
    then show ?thesis using assms Some by (simp add: unload_def)
  next
    case True
    then obtain w2 where c: "change_to_metadata_user k (emit (Lock (EntryMutex k)) w) = Inr w2"
      and w1: "w1 = emit (Unlock (EntryMutex k)) w2"
      using assms Some by (auto simp: unload_def split: sum.splits)
    have "cache_inv w2"
      using cache_inv_change_to_metadata_user [OF _ c] assms by simp
    then show ?thesis by (simp add: w1)
  qed
qed

lemma cache_inv_VolumeGrid_copy:
  assumes "cache_inv w" "VolumeGrid_copy h w = Inr (h1, w1)"
  shows "cache_inv w1"
proof (cases "entry h")
  case None
  then show ?thesis using assms by (simp add: VolumeGrid_copy_def)
next
  case (Some k)
  then have "copy_user k (grid_is_loaded h) w = Inr w1"
    using assms(2) by (auto simp: VolumeGrid_copy_def split: sum.splits)
  then show ?thesis using cache_inv_copy_user assms(1) by blast
qed

lemma cache_inv_VolumeGrid_delete:
  assumes "cache_inv w" "VolumeGrid_delete h w = Inr w1"
  shows "cache_inv w1"
proof (cases "entry h")
  case None
  then show ?thesis using assms by (simp add: VolumeGrid_delete_def)
next
  case (Some k)
  then have "remove_user k (grid_is_loaded h) w = Inr w1"
    using assms(2) by (simp add: VolumeGrid_delete_def)
  then show ?thesis using cache_inv_remove_user assms(1) by blast
qed

lemma cache_inv_copy_grids:
  "cache_inv w \<Longrightarrow> copy_grids hs w = Inr w1 \<Longrightarrow> cache_inv w1"
proof (induction hs arbitrary: w)
  case (Cons h hs)
  then obtain h2 w2 where c: "VolumeGrid_copy h w = Inr (h2, w2)"
    and r: "copy_grids hs w2 = Inr w1"
    by (auto split: sum.splits)
  from Cons.IH [OF cache_inv_VolumeGrid_copy [OF Cons.prems(1) c] r] show ?case .
qed simp

lemma cache_inv_delete_grids:
  "cache_inv w \<Longrightarrow> delete_grids hs w = Inr w1 \<Longrightarrow> cache_inv w1"
proof (induction hs arbitrary: w)
  case (Cons h hs)
  then obtain w2 where c: "VolumeGrid_delete h w = Inr w2"
    and r: "delete_grids hs w2 = Inr w1"
    by (auto split: sum.splits)
  from Cons.IH [OF cache_inv_VolumeGrid_delete [OF Cons.prems(1) c] r] show ?case .
qed simp

text \<open>The steps of \<open>emplace_back\<close>: the new handle, and the copies and deletions if any.\<close>

lemma emplace_back_steps:
  assumes "emplace_back ev t v w = Inr (v1, w1)"
  shows "w1 = snd (VolumeGrid_of_entry t w) \<or>
    (\<exists>w2. copy_grids (grids v) (snd (VolumeGrid_of_entry t w)) = Inr w2 \<and>
           delete_grids (grids v) w2 = Inr w1)"
  using assms
  by (auto simp: emplace_back_def Let_def split_def split: if_splits sum.splits)

lemma cache_inv_emplace_back:
  assumes "cache_inv w" "emplace_back ev t v w = Inr (v1, w1)"
  shows "cache_inv w1"
  using emplace_back_steps [OF assms(2)] cache_inv_VolumeGrid_of_entry [OF assms(1), of t]
    cache_inv_copy_grids cache_inv_delete_grids
  by blast

lemma cache_inv_emplace_grids:
  "cache_inv w \<Longrightarrow> emplace_grids ev path vs v w = Inr (v1, w1) \<Longrightarrow> cache_inv w1"
proof (induction ev path vs v w rule: emplace_grids.induct)
  case (3 ev path vdb_grid vdb_grids v w)
  then obtain v2 w2 where e: "emplace_back ev (Entry_new path vdb_grid) v w = Inr (v2, w2)"
    and r: "emplace_grids ev path vdb_grids v2 w2 = Inr (v1, w1)"
    by (auto split: sum.splits)
  from "3.IH" [OF e refl cache_inv_emplace_back [OF "3.prems"(1) e] r] show ?case .
qed simp_all

text \<open>
  The worlds that \<^verbatim>\<open>BKE_volume_load\<close> can leave: the one it started in, the one after the
  test of a file that does not exist, or the one after the loop over the grids of the file.
\<close>

lemma BKE_volume_load_world:
  assumes "BKE_volume_load ev volume w = Inr (ok, volume1, w1)"
  shows "w1 = w \<or>
    w1 = emit (Unlock GridsMutex) (emit (FileExists (volume_filepath_get ev volume))
           (emit (Lock GridsMutex) w)) \<or>
    (\<exists>vs v v3 w4.
       emplace_grids ev (volume_filepath_get ev volume) vs v
         (emit (FileOpen (volume_filepath_get ev volume))
           (emit (FileExists (volume_filepath_get ev volume))
             (emit (FileExists (volume_filepath_get ev volume)) (emit (Lock GridsMutex) w))))
         = Inr (v3, w4)
       \<and> w1 = emit (Unlock GridsMutex) w4)"
proof (cases "runtime_frame volume = VOLUME_FRAME_NONE \<or> BKE_volume_is_loaded volume")
  case True
  then have "w1 = w"
    using assms
    by (cases "runtime_frame volume = VOLUME_FRAME_NONE") (simp_all add: BKE_volume_load_def Let_def)
  then show ?thesis by simp
next
  case False
  show ?thesis
  proof (cases "BLI_exists ev (volume_filepath_get ev volume)")
    case ex: False
    then have "w1 = emit (Unlock GridsMutex) (emit (FileExists (volume_filepath_get ev volume))
           (emit (Lock GridsMutex) w))"
      using False assms by (auto simp: BKE_volume_load_def Let_def)
    then show ?thesis by simp
  next
    case ex: True
    obtain vs v where l: "BKE_volume_load ev volume w =
      (case emplace_grids ev (volume_filepath_get ev volume) vs v
              (emit (FileOpen (volume_filepath_get ev volume))
                (emit (FileExists (volume_filepath_get ev volume))
                  (emit (FileExists (volume_filepath_get ev volume))
                    (emit (Lock GridsMutex) w)))) of
         Inl err \<Rightarrow> Inl err
       | Inr (grids3, w4) \<Rightarrow>
           Inr (grids_error_msg grids3 = [], volume\<lparr>runtime_grids := grids3\<rparr>,
                emit (Unlock GridsMutex) w4))"
      using BKE_volume_load_loop [of volume ev w] False ex by blast
    then obtain v3 w4 where "emplace_grids ev (volume_filepath_get ev volume) vs v
              (emit (FileOpen (volume_filepath_get ev volume))
                (emit (FileExists (volume_filepath_get ev volume))
                  (emit (FileExists (volume_filepath_get ev volume))
                    (emit (Lock GridsMutex) w)))) = Inr (v3, w4)"
      "w1 = emit (Unlock GridsMutex) w4"
      using assms by (auto split: sum.splits)
    then show ?thesis by blast
  qed
qed

lemma cache_inv_BKE_volume_load:
  assumes "cache_inv w" "BKE_volume_load ev volume w = Inr (ok, volume1, w1)"
  shows "cache_inv w1"
  using BKE_volume_load_world [OF assms(2)]
proof (elim disjE exE conjE)
  assume "w1 = w"
  then show ?thesis using assms(1) by simp
next
  assume "w1 = emit (Unlock GridsMutex) (emit (FileExists (volume_filepath_get ev volume))
           (emit (Lock GridsMutex) w))"
  then show ?thesis using assms(1) by simp
next
  fix vs v v3 w4
  assume e: "emplace_grids ev (volume_filepath_get ev volume) vs v
         (emit (FileOpen (volume_filepath_get ev volume))
           (emit (FileExists (volume_filepath_get ev volume))
             (emit (FileExists (volume_filepath_get ev volume)) (emit (Lock GridsMutex) w))))
         = Inr (v3, w4)" and w1: "w1 = emit (Unlock GridsMutex) w4"
  have "cache_inv w4"
    using cache_inv_emplace_grids [OF _ e] assms(1) by simp
  then show ?thesis by (simp add: w1)
qed

lemma cache_inv_perform:
  "cache_inv w \<Longrightarrow> perform ev x w = Inr w' \<Longrightarrow> cache_inv w'"
proof (cases x)
  case (Grid_copy h)
  assume "cache_inv w" "perform ev x w = Inr w'"
  then show ?thesis using Grid_copy cache_inv_copy_user
    by (auto simp: world_of_def VolumeGrid_copy_def split: sum.splits option.splits)
next
  case (Grid_delete h)
  assume "cache_inv w" "perform ev x w = Inr w'"
  then show ?thesis using Grid_delete cache_inv_remove_user
    by (auto simp: VolumeGrid_delete_def split: option.splits)
next
  case (Grid_load path h)
  assume "cache_inv w" "perform ev x w = Inr w'"
  then show ?thesis using Grid_load cache_inv_load
    by (auto simp: world_of_def split: sum.splits)
next
  case (Grid_unload h)
  assume "cache_inv w" "perform ev x w = Inr w'"
  then show ?thesis using Grid_unload cache_inv_unload
    by (auto simp: world_of_def split: sum.splits)
next
  case (Volume_load volume)
  assume "cache_inv w" "perform ev x w = Inr w'"
  then show ?thesis using Volume_load cache_inv_BKE_volume_load
    by (auto split: sum.splits)
qed (auto intro: cache_inv_add_metadata_user cache_inv_copy_user cache_inv_remove_user
      cache_inv_change_to_tree_user cache_inv_change_to_metadata_user
      cache_inv_VolumeGrid_of_entry)

lemma cache_inv_perform_all:
  "cache_inv w \<Longrightarrow> perform_all ev xs w = Inr w' \<Longrightarrow> cache_inv w'"
proof (induction xs arbitrary: w)
  case (Cons x xs)
  then show ?case by (auto split: sum.splits dest: cache_inv_perform)
qed simp

lemma cache_inv_empty_world: "cache_inv empty_world"
  by (simp add: cache_inv_def empty_world_def)

lemma counts_changed_update:
  assumes "cache w k = Some e" "cache w1 = cache w" "grid e1 = grid e" "is_loaded e1 = is_loaded e"
  shows "counts_changed k e (num_metadata_users e1) (num_tree_users e1) w
           (emit ev (update_for_remove_user k e1 w1))"
  using assms by (simp add: counts_changed_def update_for_remove_user_def clear_def)

text \<open>
  Claim C2. For an entry in the cache, each of \<open>remove_user\<close> (of a tree user, of a metadata
  user), \<open>change_to_tree_user\<close> and \<open>change_to_metadata_user\<close> erases the entry exactly
  when the two user counts, as the operation has changed them, add up to 0; an entry that
  stays with no tree user has its tree cleared and its \<open>is_loaded\<close> reset. The empty cache
  satisfies, and every operation keeps, that each entry in the cache has user counts that
  add up to at least 1.
\<close>

theorem user_count_mutations_evict:
  "(cache w k = Some e \<longrightarrow>
     (\<exists>w1 w2 w3 w4.
        remove_user k True w = Inr w1 \<and>
        counts_changed k e (num_metadata_users e) (num_tree_users e - 1) w w1 \<and>
        remove_user k False w = Inr w2 \<and>
        counts_changed k e (num_metadata_users e - 1) (num_tree_users e) w w2 \<and>
        change_to_tree_user k w = Inr w3 \<and>
        counts_changed k e (num_metadata_users e - 1) (num_tree_users e + 1) w w3 \<and>
        change_to_metadata_user k w = Inr w4 \<and>
        counts_changed k e (num_metadata_users e + 1) (num_tree_users e - 1) w w4))
   \<and> cache_inv empty_world
   \<and> (cache_inv w0 \<longrightarrow> perform_all ev ops w0 = Inr w' \<longrightarrow> cache_inv w')"
proof (intro conjI impI)
  assume e: "cache w k = Some e"
  have c: "cache (emit (Lock CacheMutex) w) = cache w" by simp
  have "counts_changed k e (num_metadata_users e) (num_tree_users e - 1) w
          (emit (Unlock CacheMutex) (update_for_remove_user k
            (e\<lparr>num_tree_users := num_tree_users e - 1\<rparr>) (emit (Lock CacheMutex) w)))"
    using counts_changed_update [OF e c, of "e\<lparr>num_tree_users := num_tree_users e - 1\<rparr>"] by simp
  moreover have "counts_changed k e (num_metadata_users e - 1) (num_tree_users e) w
          (emit (Unlock CacheMutex) (update_for_remove_user k
            (e\<lparr>num_metadata_users := num_metadata_users e - 1\<rparr>) (emit (Lock CacheMutex) w)))"
    using counts_changed_update [OF e c, of "e\<lparr>num_metadata_users := num_metadata_users e - 1\<rparr>"]
    by simp
  moreover have "counts_changed k e (num_metadata_users e - 1) (num_tree_users e + 1) w
          (emit (Unlock CacheMutex) (update_for_remove_user k
            (e\<lparr>num_tree_users := num_tree_users e + 1,
               num_metadata_users := num_metadata_users e - 1\<rparr>) (emit (Lock CacheMutex) w)))"
    using counts_changed_update [OF e c, of "e\<lparr>num_tree_users := num_tree_users e + 1,
               num_metadata_users := num_metadata_users e - 1\<rparr>"]
    by simp
  moreover have "counts_changed k e (num_metadata_users e + 1) (num_tree_users e - 1) w
          (emit (Unlock CacheMutex) (update_for_remove_user k
            (e\<lparr>num_metadata_users := num_metadata_users e + 1,
               num_tree_users := num_tree_users e - 1\<rparr>) (emit (Lock CacheMutex) w)))"
    using counts_changed_update [OF e c, of "e\<lparr>num_metadata_users := num_metadata_users e + 1,
               num_tree_users := num_tree_users e - 1\<rparr>"]
    by simp
  ultimately show "\<exists>w1 w2 w3 w4.
        remove_user k True w = Inr w1 \<and>
        counts_changed k e (num_metadata_users e) (num_tree_users e - 1) w w1 \<and>
        remove_user k False w = Inr w2 \<and>
        counts_changed k e (num_metadata_users e - 1) (num_tree_users e) w w2 \<and>
        change_to_tree_user k w = Inr w3 \<and>
        counts_changed k e (num_metadata_users e - 1) (num_tree_users e + 1) w w3 \<and>
        change_to_metadata_user k w = Inr w4 \<and>
        counts_changed k e (num_metadata_users e + 1) (num_tree_users e - 1) w w4"
    using e
    by (simp add: remove_user_def change_to_tree_user_def change_to_metadata_user_def)
next
  show "cache_inv empty_world" by (rule cache_inv_empty_world)
next
  assume "cache_inv w0" "perform_all ev ops w0 = Inr w'"
  then show "cache_inv w'" by (rule cache_inv_perform_all)
qed

lemma cache_inv_demo_world: "cache_inv demo_world"
  unfolding demo_world_def
  by (intro cache_inv_store cache_inv_empty_world) (simp_all add: demo_defs)

theorem user_count_mutations_evict_witness:
  "cache loaded_world density_key = Some loaded_entry
   \<and> (\<exists>w4 e4. change_to_metadata_user density_key loaded_world = Inr w4
         \<and> cache w4 density_key = Some e4 \<and> num_metadata_users e4 = 2 \<and> num_tree_users e4 = 0
         \<and> tree (grid e4) = [] \<and> \<not> is_loaded e4)
   \<and> cache demo_world density_key = Some density_entry
   \<and> (\<exists>w2. remove_user density_key False demo_world = Inr w2 \<and> cache w2 density_key = None
         \<and> cache w2 heat_key = Some heat_entry)
   \<and> cache_inv demo_world
   \<and> (\<exists>w'. perform_all demo_env
               [Grid_load ''/shots/smoke.vdb'' density_handle, Grid_delete heat_handle] demo_world
             = Inr w' \<and> cache_inv w')"
proof -
  have a: "cache loaded_world density_key = Some loaded_entry"
    "cache demo_world density_key = Some density_entry"
    "cache demo_world heat_key = Some heat_entry"
    "num_metadata_users loaded_entry = 1" "num_tree_users loaded_entry = 1"
    "num_metadata_users density_entry = 1" "num_tree_users density_entry = 0"
    by (simp_all add: loaded_world_def loaded_entry_def demo_defs)
  have p: "\<exists>w'. perform_all demo_env
               [Grid_load ''/shots/smoke.vdb'' density_handle, Grid_delete heat_handle] demo_world
             = Inr w'"
    by (simp add: world_of_def load_def change_to_tree_user_def update_for_remove_user_def
        VolumeGrid_delete_def remove_user_def demo_env_def name_def Let_def demo_defs)
  then obtain w' where w': "perform_all demo_env
               [Grid_load ''/shots/smoke.vdb'' density_handle, Grid_delete heat_handle] demo_world
             = Inr w'" by blast
  have i: "cache_inv w'"
    using user_count_mutations_evict [of loaded_world density_key loaded_entry demo_world demo_env _ w'] w'
      cache_inv_demo_world by blast
  have "\<exists>w4 e4. change_to_metadata_user density_key loaded_world = Inr w4
         \<and> cache w4 density_key = Some e4 \<and> num_metadata_users e4 = 2 \<and> num_tree_users e4 = 0
         \<and> tree (grid e4) = [] \<and> \<not> is_loaded e4"
    using user_count_mutations_evict [of loaded_world density_key loaded_entry empty_world demo_env "[]" empty_world] a
    by (auto simp: counts_changed_def)
  moreover have "\<exists>w2. remove_user density_key False demo_world = Inr w2 \<and> cache w2 density_key = None
         \<and> cache w2 heat_key = Some heat_entry"
    using user_count_mutations_evict [of demo_world density_key density_entry empty_world demo_env "[]" empty_world] a
    by (auto simp: counts_changed_def heat_key_def density_key_def)
  ultimately show ?thesis
    using a w' i cache_inv_demo_world by blast
qed

subsection \<open>Loading the grids of a volume\<close>

lemma BKE_volume_load_records:
  assumes "BKE_volume_load ev volume w = Inr (ok, volume1, w1)"
    "runtime_frame volume \<noteq> VOLUME_FRAME_NONE" "\<not> BKE_volume_is_loaded volume"
  shows "runtime_frame volume1 = runtime_frame volume
    \<and> grids_filepath (runtime_grids volume1) = volume_filepath_get ev volume
    \<and> ok = (grids_error_msg (runtime_grids volume1) = [])"
proof (cases "BLI_exists ev (volume_filepath_get ev volume)")
  case False
  then show ?thesis
    using assms by (auto simp: BKE_volume_load_def Let_def)
next
  case True
  obtain vs v where v: "grids_filepath v = volume_filepath_get ev volume"
    and l: "BKE_volume_load ev volume w =
      (case emplace_grids ev (volume_filepath_get ev volume) vs v
              (emit (FileOpen (volume_filepath_get ev volume))
                (emit (FileExists (volume_filepath_get ev volume))
                  (emit (FileExists (volume_filepath_get ev volume))
                    (emit (Lock GridsMutex) w)))) of
         Inl err \<Rightarrow> Inl err
       | Inr (grids3, w4) \<Rightarrow>
           Inr (grids_error_msg grids3 = [], volume\<lparr>runtime_grids := grids3\<rparr>,
                emit (Unlock GridsMutex) w4))"
    using BKE_volume_load_loop [OF assms(2,3) True] by blast
  then obtain grids3 w4 where e: "emplace_grids ev (volume_filepath_get ev volume) vs v
              (emit (FileOpen (volume_filepath_get ev volume))
                (emit (FileExists (volume_filepath_get ev volume))
                  (emit (FileExists (volume_filepath_get ev volume))
                    (emit (Lock GridsMutex) w)))) = Inr (grids3, w4)"
    and r: "ok = (grids_error_msg grids3 = [])" "volume1 = volume\<lparr>runtime_grids := grids3\<rparr>"
    using assms(1) by (auto split: sum.splits)
  show ?thesis
    using emplace_grids_members [OF e] r v by simp
qed

text \<open>
  Claim C4. \<^verbatim>\<open>BKE_volume_load\<close> returns true and leaves the volume and the world as they
  are (no file is touched) when the runtime frame is the no-frame sentinel. When the grid
  vector is loaded, its file path not empty, it returns whether the stored error message is
  empty, again leaving everything as it is. So a second call, on the volume and the world
  that a first call left, returns what the first returned and touches no file; the resolved
  path that the first call recorded is not empty.
\<close>

theorem volume_load_short_circuits:
  "(runtime_frame volume = VOLUME_FRAME_NONE \<longrightarrow>
      BKE_volume_load ev volume w = Inr (True, volume, w))
   \<and> (runtime_frame volume \<noteq> VOLUME_FRAME_NONE \<longrightarrow> grids_filepath (runtime_grids volume) \<noteq> [] \<longrightarrow>
        BKE_volume_load ev volume w = Inr (grids_error_msg (runtime_grids volume) = [], volume, w))
   \<and> (BKE_volume_load ev volume w = Inr (ok, volume1, w1) \<longrightarrow>
        volume_filepath_get ev volume \<noteq> [] \<longrightarrow>
        BKE_volume_load ev volume1 w1 = Inr (ok, volume1, w1))"
proof (intro conjI impI)
  assume "runtime_frame volume = VOLUME_FRAME_NONE"
  then show "BKE_volume_load ev volume w = Inr (True, volume, w)"
    by (simp add: BKE_volume_load_def)
next
  assume "runtime_frame volume \<noteq> VOLUME_FRAME_NONE" "grids_filepath (runtime_grids volume) \<noteq> []"
  then show "BKE_volume_load ev volume w
      = Inr (grids_error_msg (runtime_grids volume) = [], volume, w)"
    by (simp add: BKE_volume_load_def BKE_volume_is_loaded_def)
next
  assume l: "BKE_volume_load ev volume w = Inr (ok, volume1, w1)"
    and p: "volume_filepath_get ev volume \<noteq> []"
  show "BKE_volume_load ev volume1 w1 = Inr (ok, volume1, w1)"
  proof (cases "runtime_frame volume = VOLUME_FRAME_NONE")
    case True
    then show ?thesis using l by (auto simp: BKE_volume_load_def)
  next
    case frame: False
    show ?thesis
    proof (cases "BKE_volume_is_loaded volume")
      case True
      then show ?thesis using l frame by (auto simp: BKE_volume_load_def)
    next
      case False
      then have "runtime_frame volume1 = runtime_frame volume
          \<and> grids_filepath (runtime_grids volume1) = volume_filepath_get ev volume
          \<and> ok = (grids_error_msg (runtime_grids volume1) = [])"
        using BKE_volume_load_records [OF l frame] by simp
      then show ?thesis
        using p frame by (simp add: BKE_volume_load_def BKE_volume_is_loaded_def)
    qed
  qed
qed

theorem volume_load_short_circuits_witness:
  "runtime_frame ((file_volume ''//smoke.vdb'')\<lparr>runtime_frame := VOLUME_FRAME_NONE\<rparr>) = VOLUME_FRAME_NONE
   \<and> BKE_volume_load demo_env ((file_volume ''//smoke.vdb'')\<lparr>runtime_frame := VOLUME_FRAME_NONE\<rparr>)
        empty_world
       = Inr (True, (file_volume ''//smoke.vdb'')\<lparr>runtime_frame := VOLUME_FRAME_NONE\<rparr>, empty_world)
   \<and> volume_filepath_get demo_env (file_volume ''//smoke.vdb'') \<noteq> []
   \<and> (\<exists>volume1 w1.
         BKE_volume_load demo_env (file_volume ''//smoke.vdb'') empty_world = Inr (True, volume1, w1)
         \<and> runtime_frame volume1 \<noteq> VOLUME_FRAME_NONE
         \<and> grids_filepath (runtime_grids volume1) \<noteq> []
         \<and> grids_error_msg (runtime_grids volume1) = []
         \<and> BKE_volume_load demo_env volume1 w1 = Inr (True, volume1, w1))"
proof -
  obtain volume1 w1 where
    l: "BKE_volume_load demo_env (file_volume ''//smoke.vdb'') empty_world = Inr (True, volume1, w1)"
    and v0: "grids_filepath (runtime_grids volume1) = ''/shots/smoke.vdb''"
      "grids_error_msg (runtime_grids volume1) = []" "runtime_frame volume1 = 1"
    using demo_load by blast
  have v: "runtime_frame volume1 \<noteq> VOLUME_FRAME_NONE" "grids_filepath (runtime_grids volume1) \<noteq> []"
    "grids_error_msg (runtime_grids volume1) = []"
    "volume_filepath_get demo_env (file_volume ''//smoke.vdb'') \<noteq> []"
    using v0 by (simp_all add: demo_path VOLUME_FRAME_NONE_def INT_MAX_def)
  have "BKE_volume_load demo_env volume1 w1 = Inr (True, volume1, w1)"
    using volume_load_short_circuits [of "file_volume ''//smoke.vdb''" demo_env empty_world
        True volume1 w1] l v
    by simp
  moreover have "BKE_volume_load demo_env
        ((file_volume ''//smoke.vdb'')\<lparr>runtime_frame := VOLUME_FRAME_NONE\<rparr>) empty_world
       = Inr (True, (file_volume ''//smoke.vdb'')\<lparr>runtime_frame := VOLUME_FRAME_NONE\<rparr>, empty_world)"
    using volume_load_short_circuits [of "(file_volume ''//smoke.vdb'')\<lparr>runtime_frame := VOLUME_FRAME_NONE\<rparr>"
        demo_env empty_world True volume1 w1]
    by simp
  ultimately show ?thesis using l v by auto
qed

text \<open>
  Claim C5. When a load gets as far as resolving the path (the frame is not the sentinel,
  nothing is loaded) and the resolved path does not exist, \<^verbatim>\<open>BKE_volume_load\<close> returns false,
  the error message is the file part of the path followed by \<open>'' not found''\<close>, the only
  file event is the test that the path exists (no file is opened, the cache is not touched),
  and the resolved path is recorded in the grid vector, so that a repeated call returns
  false at once.
\<close>

theorem volume_load_not_found:
  "runtime_frame volume \<noteq> VOLUME_FRAME_NONE \<longrightarrow> \<not> BKE_volume_is_loaded volume \<longrightarrow>
   \<not> BLI_exists ev (volume_filepath_get ev volume) \<longrightarrow>
     (\<exists>volume1 w1. BKE_volume_load ev volume w = Inr (False, volume1, w1) \<and>
        grids_error_msg (runtime_grids volume1)
          = BLI_split_file_part ev (volume_filepath_get ev volume) @ '' not found'' \<and>
        grids_filepath (runtime_grids volume1) = volume_filepath_get ev volume \<and>
        trace w1 = trace w @ [Lock GridsMutex, FileExists (volume_filepath_get ev volume),
                              Unlock GridsMutex] \<and>
        file_opens (trace w1) = file_opens (trace w) \<and>
        cache w1 = cache w \<and>
        (volume_filepath_get ev volume \<noteq> [] \<longrightarrow>
           BKE_volume_load ev volume1 w1 = Inr (False, volume1, w1)))"
  by (simp add: BKE_volume_load_def Let_def file_opens_def BKE_volume_is_loaded_def)

theorem volume_load_not_found_witness:
  "runtime_frame (file_volume ''//fire.vdb'') \<noteq> VOLUME_FRAME_NONE
   \<and> \<not> BKE_volume_is_loaded (file_volume ''//fire.vdb'')
   \<and> \<not> BLI_exists demo_env (volume_filepath_get demo_env (file_volume ''//fire.vdb''))
   \<and> (\<exists>volume1 w1.
         BKE_volume_load demo_env (file_volume ''//fire.vdb'') empty_world = Inr (False, volume1, w1)
         \<and> grids_error_msg (runtime_grids volume1) = ''fire.vdb not found''
         \<and> grids_filepath (runtime_grids volume1) = ''/shots/fire.vdb''
         \<and> trace w1 = [Lock GridsMutex, FileExists ''/shots/fire.vdb'', Unlock GridsMutex]
         \<and> BKE_volume_load demo_env volume1 w1 = Inr (False, volume1, w1))"
proof -
  have a: "runtime_frame (file_volume ''//fire.vdb'') \<noteq> VOLUME_FRAME_NONE"
    "\<not> BKE_volume_is_loaded (file_volume ''//fire.vdb'')"
    "volume_filepath_get demo_env (file_volume ''//fire.vdb'') = ''/shots/fire.vdb''"
    "\<not> BLI_exists demo_env ''/shots/fire.vdb''"
    "BLI_split_file_part demo_env ''/shots/fire.vdb'' = ''fire.vdb''"
    "trace empty_world = []"
    by (simp_all add: file_volume_def VOLUME_FRAME_NONE_def INT_MAX_def BKE_volume_is_loaded_def
        volume_filepath_get_def demo_env_def empty_world_def)
  show ?thesis
    using volume_load_not_found [of "file_volume ''//fire.vdb''" demo_env empty_world] a by auto
qed

subsection \<open>A failed load of a tree\<close>

lemma file_opens_simps [simp]:
  "file_opens [] = []"
  "file_opens (xs @ ys) = file_opens xs @ file_opens ys"
  "file_opens (FileOpen p # xs) = p # file_opens xs"
  "file_opens (Lock m # xs) = file_opens xs"
  "file_opens (Unlock m # xs) = file_opens xs"
  "file_opens (FileExists p # xs) = file_opens xs"
  by (simp_all add: file_opens_def)

lemma load_failure:
  assumes "entry h = Some k" "\<not> grid_is_loaded h" "cache w k = Some e" "\<not> is_loaded e"
    "1 \<le> num_metadata_users e + num_tree_users e" "0 \<le> num_tree_users e"
    "readGrid ev path (name h) = Inl what"
  shows "\<exists>w1 e1. load ev path h w = Inr (h\<lparr>grid_is_loaded := True\<rparr>, w1) \<and>
           cache w1 k = Some e1 \<and> error_msg e1 = what \<and> is_loaded e1 \<and>
           grid e1 = grid e \<and>
           1 \<le> num_tree_users e1 \<and> 1 \<le> num_metadata_users e1 + num_tree_users e1 \<and>
           file_opens (trace w1) = file_opens (trace w) @ [path]"
  using assms
  by (simp add: load_def change_to_tree_user_def update_for_remove_user_def Let_def)

lemma load_of_loaded_entry:
  assumes "entry h = Some k" "cache w k = Some e" "is_loaded e"
    "1 \<le> num_metadata_users e + num_tree_users e" "1 \<le> num_tree_users e"
  shows "\<exists>h1 w1 e1. load ev path h w = Inr (h1, w1) \<and>
           cache w1 k = Some e1 \<and> error_msg e1 = error_msg e \<and> is_loaded e1 \<and>
           grid e1 = grid e \<and>
           1 \<le> num_tree_users e1 \<and> 1 \<le> num_metadata_users e1 + num_tree_users e1 \<and>
           file_opens (trace w1) = file_opens (trace w)"
proof (cases "grid_is_loaded h")
  case True
  then show ?thesis using assms by (simp add: load_def)
next
  case False
  then show ?thesis
    using assms
    by (simp add: load_def change_to_tree_user_def update_for_remove_user_def Let_def)
qed

lemma load_each_of_loaded_entry:
  assumes "\<forall>h\<in>set hs. entry h = Some k" "cache w k = Some e" "is_loaded e"
    "1 \<le> num_metadata_users e + num_tree_users e" "1 \<le> num_tree_users e"
  shows "\<exists>w2 e2. load_each ev path hs w = Inr w2 \<and>
           cache w2 k = Some e2 \<and> error_msg e2 = error_msg e \<and> is_loaded e2 \<and>
           grid e2 = grid e \<and> file_opens (trace w2) = file_opens (trace w)"
  using assms
proof (induction hs arbitrary: w e)
  case Nil
  then show ?case by simp
next
  case (Cons h hs)
  from Cons.prems have h: "entry h = Some k" by simp
  obtain h1 w1 e1 where l: "load ev path h w = Inr (h1, w1)" "cache w1 k = Some e1"
    "error_msg e1 = error_msg e" "is_loaded e1" "grid e1 = grid e"
    "1 \<le> num_tree_users e1" "1 \<le> num_metadata_users e1 + num_tree_users e1"
    "file_opens (trace w1) = file_opens (trace w)"
    using load_of_loaded_entry [OF h Cons.prems(2) Cons.prems(3) Cons.prems(4) Cons.prems(5)]
    by blast
  from Cons.prems have "\<forall>h\<in>set hs. entry h = Some k" by simp
  from Cons.IH [OF this l(2) l(4) l(7) l(6)] l show ?case by simp
qed

lemma update_for_remove_user_reset:
  assumes "cache w k = Some e0" "is_loaded e1 = is_loaded e0"
    "cache w k' = Some e" "is_loaded e"
    "cache (update_for_remove_user k e1 w) k' = Some e'" "\<not> is_loaded e'"
  shows "num_tree_users e' = 0 \<and> tree (grid e') = []"
  using assms
  by (cases "k' = k") (auto simp: update_for_remove_user_def clear_def split: if_splits)

lemma remove_user_reset:
  assumes "remove_user k b w = Inr w'" "cache w k' = Some e" "is_loaded e"
    "cache w' k' = Some e'" "\<not> is_loaded e'"
  shows "num_tree_users e' = 0 \<and> tree (grid e') = []"
proof (cases "cache w k")
  case None
  then show ?thesis using assms by (simp add: remove_user_def)
next
  case (Some e0)
  define e1 where "e1 = (if b then e0\<lparr>num_tree_users := num_tree_users e0 - 1\<rparr>
                         else e0\<lparr>num_metadata_users := num_metadata_users e0 - 1\<rparr>)"
  have w': "cache w' = cache (update_for_remove_user k e1 (emit (Lock CacheMutex) w))"
    using assms(1) Some by (auto simp: remove_user_def e1_def)
  have "is_loaded e1 = is_loaded e0" by (simp add: e1_def)
  from update_for_remove_user_reset [OF _ this, of "emit (Lock CacheMutex) w" k k' e e']
  show ?thesis using Some assms w' by simp
qed

lemma change_to_tree_user_reset:
  assumes "change_to_tree_user k w = Inr w'" "cache w k' = Some e" "is_loaded e"
    "cache w' k' = Some e'" "\<not> is_loaded e'"
  shows "num_tree_users e' = 0 \<and> tree (grid e') = []"
proof (cases "cache w k")
  case None
  then show ?thesis using assms by (simp add: change_to_tree_user_def)
next
  case (Some e0)
  define e1 where "e1 = e0\<lparr>num_tree_users := num_tree_users e0 + 1,
                           num_metadata_users := num_metadata_users e0 - 1\<rparr>"
  have w': "cache w' = cache (update_for_remove_user k e1 (emit (Lock CacheMutex) w))"
    using assms(1) Some by (auto simp: change_to_tree_user_def e1_def)
  have "is_loaded e1 = is_loaded e0" by (simp add: e1_def)
  from update_for_remove_user_reset [OF _ this, of "emit (Lock CacheMutex) w" k k' e e']
  show ?thesis using Some assms w' by simp
qed

lemma change_to_metadata_user_reset:
  assumes "change_to_metadata_user k w = Inr w'" "cache w k' = Some e" "is_loaded e"
    "cache w' k' = Some e'" "\<not> is_loaded e'"
  shows "num_tree_users e' = 0 \<and> tree (grid e') = []"
proof (cases "cache w k")
  case None
  then show ?thesis using assms by (simp add: change_to_metadata_user_def)
next
  case (Some e0)
  define e1 where "e1 = e0\<lparr>num_metadata_users := num_metadata_users e0 + 1,
                           num_tree_users := num_tree_users e0 - 1\<rparr>"
  have w': "cache w' = cache (update_for_remove_user k e1 (emit (Lock CacheMutex) w))"
    using assms(1) Some by (auto simp: change_to_metadata_user_def e1_def)
  have "is_loaded e1 = is_loaded e0" by (simp add: e1_def)
  from update_for_remove_user_reset [OF _ this, of "emit (Lock CacheMutex) w" k k' e e']
  show ?thesis using Some assms w' by simp
qed

lemma add_metadata_user_keeps:
  assumes "cache w k = Some e"
  shows "\<exists>e'. cache (snd (add_metadata_user t w)) k = Some e' \<and> is_loaded e' = is_loaded e"
  using assms
  by (cases "k = entry_key t") (auto simp: add_metadata_user_def Let_def)

lemma copy_user_keeps:
  assumes "copy_user k' b w = Inr w'" "cache w k = Some e"
  shows "\<exists>e'. cache w' k = Some e' \<and> is_loaded e' = is_loaded e"
  using assms
  by (cases "k = k'") (auto simp: copy_user_def Let_def split: option.splits)

lemma VolumeGrid_of_entry_keeps:
  assumes "cache w k = Some e"
  shows "\<exists>e'. cache (snd (VolumeGrid_of_entry t w)) k = Some e' \<and> is_loaded e' = is_loaded e"
  using add_metadata_user_keeps [OF assms, of t]
  by (simp add: VolumeGrid_of_entry_def split_def Let_def)

text \<open>
  A vector that moves its handles copies each and then deletes each. Through these steps
  an entry stays accounted for: the copies made are the copies still to be deleted.
\<close>

lemma users_in_Nil [simp]: "users_in k t [] = 0"
  by (simp add: users_in_def)

lemma users_in_Cons: "users_in k t (h # hs) = users_in k t [h] + users_in k t hs"
  by (simp add: users_in_def)

lemma users_in_nonneg: "0 \<le> users_in k t hs"
  by (simp add: users_in_def)

lemma accounted_VolumeGrid_of_entry:
  assumes "cache w k = Some e" "users_accounted e a b"
  shows "\<exists>e'. cache (snd (VolumeGrid_of_entry t w)) k = Some e' \<and> users_accounted e' a b"
  using assms
  by (cases "k = entry_key t")
    (auto simp: VolumeGrid_of_entry_def add_metadata_user_def split_def Let_def
      users_accounted_def)

lemma accounted_VolumeGrid_copy:
  assumes "VolumeGrid_copy h w = Inr (h1, w1)" "cache w k = Some e" "users_accounted e a b"
  shows "\<exists>e'. cache w1 k = Some e' \<and>
           users_accounted e' (a + users_in k True [h]) (b + users_in k False [h])"
proof (cases "entry h")
  case None
  then show ?thesis using assms by (simp add: VolumeGrid_copy_def users_in_def)
next
  case (Some kh)
  then have c: "copy_user kh (grid_is_loaded h) w = Inr w1"
    using assms(1) by (auto simp: VolumeGrid_copy_def split: sum.splits)
  show ?thesis
  proof (cases "kh = k")
    case False
    then have "cache w1 k = Some e"
      using c assms(2) by (auto simp: copy_user_def Let_def split: option.splits)
    then show ?thesis using False Some assms(3) by (simp add: users_in_def)
  next
    case True
    then show ?thesis
      using c Some assms(2,3)
      by (auto simp: copy_user_def Let_def users_in_def users_accounted_def)
  qed
qed

lemma accounted_VolumeGrid_delete:
  assumes "VolumeGrid_delete h w = Inr w1" "cache w k = Some e"
    "users_accounted e (a + users_in k True [h]) (b + users_in k False [h])"
    "0 \<le> a" "0 \<le> b"
  shows "\<exists>e'. cache w1 k = Some e' \<and> users_accounted e' a b"
proof (cases "entry h")
  case None
  then show ?thesis using assms by (simp add: VolumeGrid_delete_def users_in_def)
next
  case (Some kh)
  then have c: "remove_user kh (grid_is_loaded h) w = Inr w1"
    using assms(1) by (simp add: VolumeGrid_delete_def)
  show ?thesis
  proof (cases "kh = k")
    case False
    then have "cache w1 k = Some e"
      using c assms(2)
      by (auto simp: remove_user_def update_for_remove_user_def Let_def split: option.splits)
    then show ?thesis using False Some assms(3) by (simp add: users_in_def)
  next
    case True
    show ?thesis
    proof (cases "grid_is_loaded h")
      case loaded: True
      then have u: "users_accounted e (a + 1) b"
        using assms(3) True Some by (simp add: users_in_def)
      show ?thesis
        using c True loaded assms(2,4,5) u
        by (auto simp: remove_user_def update_for_remove_user_def clear_def Let_def
            users_accounted_def split: if_splits)
    next
      case unloaded: False
      then have u: "users_accounted e a (b + 1)"
        using assms(3) True Some by (simp add: users_in_def)
      show ?thesis
        using c True unloaded assms(2,4,5) u
        by (auto simp: remove_user_def update_for_remove_user_def clear_def Let_def
            users_accounted_def split: if_splits)
    qed
  qed
qed

lemma accounted_copy_grids:
  "copy_grids hs w = Inr w1 \<Longrightarrow> cache w k = Some e \<Longrightarrow> users_accounted e a b
    \<Longrightarrow> \<exists>e'. cache w1 k = Some e' \<and>
          users_accounted e' (a + users_in k True hs) (b + users_in k False hs)"
proof (induction hs arbitrary: w e a b)
  case Nil
  then show ?case by simp
next
  case (Cons h hs)
  then obtain h2 w2 where c: "VolumeGrid_copy h w = Inr (h2, w2)"
    and r: "copy_grids hs w2 = Inr w1"
    by (auto split: sum.splits)
  obtain e2 where e2: "cache w2 k = Some e2"
    "users_accounted e2 (a + users_in k True [h]) (b + users_in k False [h])"
    using accounted_VolumeGrid_copy [OF c Cons.prems(2) Cons.prems(3)] by blast
  from Cons.IH [OF r e2] show ?case
    by (simp add: users_in_Cons [of k _ h hs] add.assoc)
qed

lemma accounted_delete_grids:
  "delete_grids hs w = Inr w1 \<Longrightarrow> cache w k = Some e
    \<Longrightarrow> users_accounted e (a + users_in k True hs) (b + users_in k False hs)
    \<Longrightarrow> 0 \<le> a \<Longrightarrow> 0 \<le> b
    \<Longrightarrow> \<exists>e'. cache w1 k = Some e' \<and> users_accounted e' a b"
proof (induction hs arbitrary: w e)
  case Nil
  then show ?case by simp
next
  case (Cons h hs)
  then obtain w2 where c: "VolumeGrid_delete h w = Inr w2"
    and r: "delete_grids hs w2 = Inr w1"
    by (auto split: sum.splits)
  have u: "users_accounted e ((a + users_in k True hs) + users_in k True [h])
             ((b + users_in k False hs) + users_in k False [h])"
    using Cons.prems(3) by (simp add: users_in_Cons [of k _ h hs] algebra_simps)
  have n: "0 \<le> a + users_in k True hs" "0 \<le> b + users_in k False hs"
    using Cons.prems(4,5) users_in_nonneg [of k True hs] users_in_nonneg [of k False hs]
    by simp_all
  obtain e2 where e2: "cache w2 k = Some e2"
    "users_accounted e2 (a + users_in k True hs) (b + users_in k False hs)"
    using accounted_VolumeGrid_delete [OF c Cons.prems(2) u n] by blast
  from Cons.IH [OF r e2 Cons.prems(4) Cons.prems(5)] show ?case .
qed

lemma accounted_emplace_back:
  assumes "emplace_back ev t v w = Inr (v1, w1)" "cache w k = Some e" "users_accounted e 0 0"
  shows "\<exists>e'. cache w1 k = Some e' \<and> users_accounted e' 0 0"
proof -
  obtain e2 where e2: "cache (snd (VolumeGrid_of_entry t w)) k = Some e2" "users_accounted e2 0 0"
    using accounted_VolumeGrid_of_entry [OF assms(2,3)] by blast
  from emplace_back_steps [OF assms(1)] show ?thesis
  proof (elim disjE exE conjE)
    assume "w1 = snd (VolumeGrid_of_entry t w)"
    then show ?thesis using e2 by blast
  next
    fix w2
    assume c: "copy_grids (grids v) (snd (VolumeGrid_of_entry t w)) = Inr w2"
      and d: "delete_grids (grids v) w2 = Inr w1"
    obtain e3 where e3: "cache w2 k = Some e3"
      "users_accounted e3 (0 + users_in k True (grids v)) (0 + users_in k False (grids v))"
      using accounted_copy_grids [OF c e2] by blast
    from accounted_delete_grids [OF d e3] show ?thesis by simp
  qed
qed

lemma accounted_emplace_grids:
  "emplace_grids ev path vs v w = Inr (v1, w1) \<Longrightarrow> cache w k = Some e
    \<Longrightarrow> users_accounted e 0 0
    \<Longrightarrow> \<exists>e'. cache w1 k = Some e' \<and> users_accounted e' 0 0"
proof (induction ev path vs v w arbitrary: e rule: emplace_grids.induct)
  case (3 ev path vdb_grid vdb_grids v w)
  then obtain v2 w2 where eb: "emplace_back ev (Entry_new path vdb_grid) v w = Inr (v2, w2)"
    and r: "emplace_grids ev path vdb_grids v2 w2 = Inr (v1, w1)"
    by (auto split: sum.splits)
  obtain e2 where e2: "cache w2 k = Some e2" "users_accounted e2 0 0"
    using accounted_emplace_back [OF eb "3.prems"(2) "3.prems"(3)] by blast
  from "3.IH" [OF eb refl r e2] show ?case .
qed auto

lemma accounted_BKE_volume_load:
  assumes "BKE_volume_load ev volume w = Inr (ok, volume1, w1)" "cache w k = Some e"
    "users_accounted e 0 0"
  shows "\<exists>e'. cache w1 k = Some e' \<and> users_accounted e' 0 0"
  using BKE_volume_load_world [OF assms(1)]
proof (elim disjE exE conjE)
  assume "w1 = w"
  then show ?thesis using assms by blast
next
  assume "w1 = emit (Unlock GridsMutex) (emit (FileExists (volume_filepath_get ev volume))
           (emit (Lock GridsMutex) w))"
  then show ?thesis using assms by simp
next
  fix vs v v3 w4
  assume eg: "emplace_grids ev (volume_filepath_get ev volume) vs v
         (emit (FileOpen (volume_filepath_get ev volume))
           (emit (FileExists (volume_filepath_get ev volume))
             (emit (FileExists (volume_filepath_get ev volume)) (emit (Lock GridsMutex) w))))
         = Inr (v3, w4)" and w1: "w1 = emit (Unlock GridsMutex) w4"
  have "\<exists>e'. cache w4 k = Some e' \<and> users_accounted e' 0 0"
    using accounted_emplace_grids [OF eg _ assms(3), of k] assms(2) by simp
  then show ?thesis by (simp add: w1)
qed

lemma load_keeps_loaded:
  assumes "load ev path h w = Inr (h1, w1)" "cache w k = Some e" "is_loaded e"
    "cache w1 k = Some e'" "\<not> is_loaded e'"
  shows "num_tree_users e' = 0 \<and> tree (grid e') = []"
proof (cases "entry h")
  case None
  then show ?thesis using assms by (simp add: load_def)
next
  case (Some kh)
  show ?thesis
  proof (cases "grid_is_loaded h")
    case True
    then show ?thesis using assms Some by (simp add: load_def)
  next
    case False
    then obtain w2 where c: "change_to_tree_user kh (emit (Lock (EntryMutex kh)) w) = Inr w2"
      using assms Some by (auto simp: load_def split: sum.splits)
    obtain eh where eh: "cache w2 kh = Some eh"
      using assms Some False c by (auto simp: load_def split: option.splits)
    show ?thesis
    proof (cases "is_loaded eh")
      case True
      then have "cache w1 = cache w2"
        using assms(1) Some False c eh by (auto simp: load_def)
      then show ?thesis
        using change_to_tree_user_reset [OF c, of k e e'] assms by simp
    next
      case nl: False
      then have w1: "cache w1 k = (if k = kh then cache w1 k else cache w2 k)"
        "k = kh \<longrightarrow> (\<exists>x. cache w1 k = Some x \<and> is_loaded x)"
        using assms(1) Some False c eh by (auto simp: load_def Let_def)
      show ?thesis
      proof (cases "k = kh")
        case True
        then show ?thesis using w1 assms by auto
      next
        case False
        then have "cache w2 k = Some e'" using w1 assms by simp
        then show ?thesis
          using change_to_tree_user_reset [OF c, of k e e'] assms by simp
      qed
    qed
  qed
qed

lemma unload_keeps_loaded:
  assumes "unload h w = Inr (h1, w1)" "cache w k = Some e" "is_loaded e"
    "cache w1 k = Some e'" "\<not> is_loaded e'"
  shows "num_tree_users e' = 0 \<and> tree (grid e') = []"
proof (cases "entry h")
  case None
  then show ?thesis using assms by (simp add: unload_def)
next
  case (Some kh)
  show ?thesis
  proof (cases "grid_is_loaded h")
    case False
    then show ?thesis using assms Some by (simp add: unload_def)
  next
    case True
    then obtain w2 where c: "change_to_metadata_user kh (emit (Lock (EntryMutex kh)) w) = Inr w2"
      and w1: "w1 = emit (Unlock (EntryMutex kh)) w2"
      using assms Some by (auto simp: unload_def split: sum.splits)
    show ?thesis
      using change_to_metadata_user_reset [OF c, of k e e'] assms w1 by simp
  qed
qed

lemma perform_reset:
  assumes "perform ev x w = Inr w'" "cache w k = Some e" "is_loaded e"
    "\<forall>volume. x = Volume_load volume \<longrightarrow>
       1 \<le> num_metadata_users e + num_tree_users e \<and> 0 \<le> num_tree_users e"
    "cache w' k = Some e'" "\<not> is_loaded e'"
  shows "num_tree_users e' = 0 \<and> tree (grid e') = []"
proof (cases x)
  case (Add_metadata_user t)
  then show ?thesis using assms add_metadata_user_keeps [OF assms(2), of t] by auto
next
  case (Copy_user k' b)
  then show ?thesis using assms copy_user_keeps [of k' b w w' k e] by auto
next
  case (Remove_user k' b)
  then show ?thesis using assms remove_user_reset [of k' b w w' k e e'] by simp
next
  case (Change_to_tree_user k')
  then show ?thesis using assms change_to_tree_user_reset [of k' w w' k e e'] by simp
next
  case (Change_to_metadata_user k')
  then show ?thesis using assms change_to_metadata_user_reset [of k' w w' k e e'] by simp
next
  case (Grid_new t)
  then show ?thesis using assms VolumeGrid_of_entry_keeps [OF assms(2), of t] by auto
next
  case (Grid_copy h)
  then show ?thesis
    using assms copy_user_keeps [of _ _ w w' k e]
    by (auto simp: world_of_def VolumeGrid_copy_def split: sum.splits option.splits)
next
  case (Grid_delete h)
  then show ?thesis
    using assms remove_user_reset [of _ _ w w' k e e']
    by (auto simp: VolumeGrid_delete_def split: option.splits)
next
  case (Grid_load path h)
  then show ?thesis
    using assms load_keeps_loaded [of ev path h w _ w' k e e']
    by (auto simp: world_of_def split: sum.splits)
next
  case (Grid_unload h)
  then show ?thesis
    using assms unload_keeps_loaded [of h w _ w' k e e']
    by (auto simp: world_of_def split: sum.splits)
next
  case (Volume_load volume)
  then obtain ok volume1 where l: "BKE_volume_load ev volume w = Inr (ok, volume1, w')"
    using assms(1) by (auto split: sum.splits)
  have "users_accounted e 0 0"
    using assms(3,4) Volume_load by (simp add: users_accounted_def)
  then have "users_accounted e' 0 0"
    using accounted_BKE_volume_load [OF l assms(2)] assms(5) by auto
  then show ?thesis using assms(6) by (simp add: users_accounted_def)
qed

text \<open>
  Claim C3. When the read of a grid's tree fails with an I/O error, the load records the
  text of the error in the entry's \<open>error_msg\<close> and sets the entry's \<open>is_loaded\<close> all the
  same; the loads that follow, on any handles of that entry, open no file and leave the
  entry loaded with that error. The entry is one of a well-formed cache: it has a user and
  its number of tree users is not negative. And whatever the operation, an entry whose
  \<open>is_loaded\<close> was set and is not set afterwards has no tree user and no tree: only the
  eviction of the tree resets the flag. For the load of a volume, whose vector deletes the
  handles it has copied, the entry is again one of a well-formed cache.
\<close>

theorem failed_load_is_terminal:
  "(entry h = Some k \<longrightarrow> \<not> grid_is_loaded h \<longrightarrow> cache w k = Some e \<longrightarrow> \<not> is_loaded e \<longrightarrow>
    1 \<le> num_metadata_users e + num_tree_users e \<longrightarrow> 0 \<le> num_tree_users e \<longrightarrow>
    readGrid ev path (name h) = Inl what \<longrightarrow>
      (\<exists>h1 w1 e1. load ev path h w = Inr (h1, w1) \<and> grid_is_loaded h1 \<and>
         cache w1 k = Some e1 \<and> error_msg e1 = what \<and> is_loaded e1 \<and>
         file_opens (trace w1) = file_opens (trace w) @ [path] \<and>
         (\<forall>hs path2. (\<forall>h2\<in>set hs. entry h2 = Some k) \<longrightarrow>
            (\<exists>w2 e2. load_each ev path2 hs w1 = Inr w2 \<and> cache w2 k = Some e2 \<and>
               is_loaded e2 \<and> error_msg e2 = what \<and>
               file_opens (trace w2) = file_opens (trace w1)))))
   \<and> (perform ev x w0 = Inr w' \<longrightarrow> cache w0 k0 = Some e0 \<longrightarrow> is_loaded e0 \<longrightarrow>
        (\<forall>volume. x = Volume_load volume \<longrightarrow>
           1 \<le> num_metadata_users e0 + num_tree_users e0 \<and> 0 \<le> num_tree_users e0) \<longrightarrow>
        cache w' k0 = Some e' \<longrightarrow> \<not> is_loaded e' \<longrightarrow>
        num_tree_users e' = 0 \<and> tree (grid e') = [])"
proof (intro conjI impI)
  assume a: "entry h = Some k" "\<not> grid_is_loaded h" "cache w k = Some e" "\<not> is_loaded e"
    "1 \<le> num_metadata_users e + num_tree_users e" "0 \<le> num_tree_users e"
    "readGrid ev path (name h) = Inl what"
  obtain w1 e1 where l: "load ev path h w = Inr (h\<lparr>grid_is_loaded := True\<rparr>, w1)"
    "cache w1 k = Some e1" "error_msg e1 = what" "is_loaded e1"
    "1 \<le> num_tree_users e1" "1 \<le> num_metadata_users e1 + num_tree_users e1"
    "file_opens (trace w1) = file_opens (trace w) @ [path]"
    using load_failure [OF a] by blast
  have "\<exists>w2 e2. load_each ev path2 hs w1 = Inr w2 \<and> cache w2 k = Some e2 \<and>
               is_loaded e2 \<and> error_msg e2 = what \<and>
               file_opens (trace w2) = file_opens (trace w1)"
    if "\<forall>h2\<in>set hs. entry h2 = Some k" for hs path2
    using load_each_of_loaded_entry [OF that l(2) l(4) l(6) l(5), of ev path2] l(3) by auto
  then show "\<exists>h1 w1 e1. load ev path h w = Inr (h1, w1) \<and> grid_is_loaded h1 \<and>
         cache w1 k = Some e1 \<and> error_msg e1 = what \<and> is_loaded e1 \<and>
         file_opens (trace w1) = file_opens (trace w) @ [path] \<and>
         (\<forall>hs path2. (\<forall>h2\<in>set hs. entry h2 = Some k) \<longrightarrow>
            (\<exists>w2 e2. load_each ev path2 hs w1 = Inr w2 \<and> cache w2 k = Some e2 \<and>
               is_loaded e2 \<and> error_msg e2 = what \<and>
               file_opens (trace w2) = file_opens (trace w1)))"
    using l by (intro exI [of _ "h\<lparr>grid_is_loaded := True\<rparr>"] exI [of _ w1] exI [of _ e1]) simp
next
  assume "perform ev x w0 = Inr w'" "cache w0 k0 = Some e0" "is_loaded e0"
    "\<forall>volume. x = Volume_load volume \<longrightarrow>
       1 \<le> num_metadata_users e0 + num_tree_users e0 \<and> 0 \<le> num_tree_users e0"
    "cache w' k0 = Some e'" "\<not> is_loaded e'"
  then have "num_tree_users e' = 0 \<and> tree (grid e') = []"
    by (rule perform_reset)
  then show "num_tree_users e' = 0" and "tree (grid e') = []"
    by simp_all
qed

theorem failed_load_is_terminal_witness:
  "entry heat_handle = Some heat_key \<and> \<not> grid_is_loaded heat_handle
   \<and> cache demo_world heat_key = Some heat_entry \<and> \<not> is_loaded heat_entry
   \<and> readGrid demo_env ''/shots/smoke.vdb'' (name heat_handle) = Inl ''cannot read grid''
   \<and> (\<exists>h1 w1 e1. load demo_env ''/shots/smoke.vdb'' heat_handle demo_world = Inr (h1, w1)
         \<and> grid_is_loaded h1 \<and> cache w1 heat_key = Some e1
         \<and> error_msg e1 = ''cannot read grid'' \<and> is_loaded e1
         \<and> file_opens (trace w1) = [''/shots/smoke.vdb'']
         \<and> (\<exists>w2 e2. load_each demo_env ''/shots/smoke.vdb'' [heat_handle, h1, heat_handle] w1 = Inr w2
               \<and> cache w2 heat_key = Some e2 \<and> is_loaded e2
               \<and> error_msg e2 = ''cannot read grid''
               \<and> file_opens (trace w2) = [''/shots/smoke.vdb'']))
   \<and> cache loaded_world density_key = Some loaded_entry \<and> is_loaded loaded_entry
   \<and> (\<exists>w' e'. perform demo_env (Grid_unload (density_handle\<lparr>grid_is_loaded := True\<rparr>)) loaded_world
                 = Inr w'
         \<and> cache w' density_key = Some e' \<and> \<not> is_loaded e'
         \<and> num_tree_users e' = 0 \<and> tree (grid e') = [])
   \<and> cache unevicted_world density_key = Some unevicted_entry \<and> is_loaded unevicted_entry
   \<and> 1 \<le> num_metadata_users unevicted_entry + num_tree_users unevicted_entry
   \<and> 0 \<le> num_tree_users unevicted_entry
   \<and> (\<exists>w' e'. perform demo_env (Volume_load (file_volume ''//smoke.vdb'')) unevicted_world = Inr w'
         \<and> cache w' density_key = Some e' \<and> \<not> is_loaded e'
         \<and> num_tree_users e' = 0 \<and> tree (grid e') = [])"
proof -
  have c: "cache unevicted_world density_key = Some unevicted_entry" "is_loaded unevicted_entry"
    "1 \<le> num_metadata_users unevicted_entry + num_tree_users unevicted_entry"
    "0 \<le> num_tree_users unevicted_entry"
    by (simp_all add: unevicted_world_def unevicted_entry_def loaded_entry_def demo_defs)
  have "\<exists>w' e'. perform demo_env (Volume_load (file_volume ''//smoke.vdb'')) unevicted_world = Inr w'
         \<and> cache w' density_key = Some e' \<and> \<not> is_loaded e'"
    by (simp add: BKE_volume_load_def demo_env_def file_volume_def BKE_volume_is_loaded_def
        VOLUME_FRAME_NONE_def INT_MAX_def volume_filepath_get_def Let_def VolumeGrid_of_entry_def
        add_metadata_user_def entry_key_def Entry_copy_def demo_defs split_def emplace_back_def
        VolumeGrid_copy_def copy_user_def VolumeGrid_delete_def remove_user_def
        update_for_remove_user_def clear_def unevicted_world_def unevicted_entry_def
        loaded_entry_def setTree_def)
  then obtain wv ev' where v:
    "perform demo_env (Volume_load (file_volume ''//smoke.vdb'')) unevicted_world = Inr wv"
    "cache wv density_key = Some ev'" "\<not> is_loaded ev'"
    by blast
  have rv: "num_tree_users ev' = 0 \<and> tree (grid ev') = []"
    using failed_load_is_terminal [of heat_handle heat_key demo_world heat_entry demo_env
        "''/shots/smoke.vdb''" "''cannot read grid''" "Volume_load (file_volume ''//smoke.vdb'')"
        unevicted_world wv density_key unevicted_entry ev'] v c
    by blast
  have a: "entry heat_handle = Some heat_key" "\<not> grid_is_loaded heat_handle"
    "cache demo_world heat_key = Some heat_entry" "\<not> is_loaded heat_entry"
    "1 \<le> num_metadata_users heat_entry + num_tree_users heat_entry"
    "0 \<le> num_tree_users heat_entry"
    "readGrid demo_env ''/shots/smoke.vdb'' (name heat_handle) = Inl ''cannot read grid''"
    "file_opens (trace demo_world) = []"
    by (simp_all add: demo_defs name_def demo_env_def)
  have b: "cache loaded_world density_key = Some loaded_entry" "is_loaded loaded_entry"
    by (simp_all add: loaded_world_def loaded_entry_def)
  have "\<exists>w' e'. perform demo_env (Grid_unload (density_handle\<lparr>grid_is_loaded := True\<rparr>)) loaded_world
                 = Inr w' \<and> cache w' density_key = Some e' \<and> \<not> is_loaded e'"
    by (simp add: world_of_def unload_def change_to_metadata_user_def update_for_remove_user_def
        loaded_world_def loaded_entry_def demo_defs)
  then obtain w' e' where u:
    "perform demo_env (Grid_unload (density_handle\<lparr>grid_is_loaded := True\<rparr>)) loaded_world = Inr w'"
    "cache w' density_key = Some e'" "\<not> is_loaded e'"
    by blast
  have r: "num_tree_users e' = 0 \<and> tree (grid e') = []"
    using failed_load_is_terminal [of heat_handle heat_key demo_world heat_entry demo_env "''/shots/smoke.vdb''"
        "''cannot read grid''" "Grid_unload (density_handle\<lparr>grid_is_loaded := True\<rparr>)"
        loaded_world w' density_key loaded_entry e'] u b
    by blast
  obtain h1 w1 e1 where l: "load demo_env ''/shots/smoke.vdb'' heat_handle demo_world = Inr (h1, w1)"
    "grid_is_loaded h1" "cache w1 heat_key = Some e1"
    "error_msg e1 = ''cannot read grid''" "is_loaded e1"
    "file_opens (trace w1) = file_opens (trace demo_world) @ [''/shots/smoke.vdb'']"
    and rest: "\<forall>hs path2. (\<forall>h2\<in>set hs. entry h2 = Some heat_key) \<longrightarrow>
            (\<exists>w2 e2. load_each demo_env path2 hs w1 = Inr w2 \<and> cache w2 heat_key = Some e2 \<and>
               is_loaded e2 \<and> error_msg e2 = ''cannot read grid'' \<and>
               file_opens (trace w2) = file_opens (trace w1))"
    using failed_load_is_terminal [of heat_handle heat_key demo_world heat_entry demo_env "''/shots/smoke.vdb''"
        "''cannot read grid''" "Grid_unload (density_handle\<lparr>grid_is_loaded := True\<rparr>)"
        loaded_world w' density_key loaded_entry e'] a
    by blast
  have "entry h1 = Some heat_key"
    using l(1) a by (auto simp: load_def Let_def split: sum.splits option.splits if_splits)
  then have "\<forall>h2\<in>set [heat_handle, h1, heat_handle]. entry h2 = Some heat_key"
    using a by simp
  then have "\<exists>w2 e2. load_each demo_env ''/shots/smoke.vdb'' [heat_handle, h1, heat_handle] w1 = Inr w2
               \<and> cache w2 heat_key = Some e2 \<and> is_loaded e2
               \<and> error_msg e2 = ''cannot read grid''
               \<and> file_opens (trace w2) = file_opens (trace w1)"
    using rest by blast
  then show ?thesis
    using a b c u r v rv l by auto
qed

subsection \<open>Mutexes\<close>

lemma trace_update_for_remove_user [simp]:
  "trace (update_for_remove_user k e w) = trace w"
  by (simp add: update_for_remove_user_def)

lemma trace_add_metadata_user:
  "trace (snd (add_metadata_user t w)) = trace w @ [Lock CacheMutex, Unlock CacheMutex]"
  by (simp add: add_metadata_user_def Let_def)

lemma trace_copy_user:
  "copy_user k b w = Inr w' \<Longrightarrow> trace w' = trace w @ [Lock CacheMutex, Unlock CacheMutex]"
  by (auto simp: copy_user_def Let_def split: option.splits)

lemma trace_remove_user:
  "remove_user k b w = Inr w' \<Longrightarrow> trace w' = trace w @ [Lock CacheMutex, Unlock CacheMutex]"
  by (auto simp: remove_user_def Let_def split: option.splits)

lemma trace_change_to_tree_user:
  "change_to_tree_user k w = Inr w' \<Longrightarrow> trace w' = trace w @ [Lock CacheMutex, Unlock CacheMutex]"
  by (auto simp: change_to_tree_user_def Let_def split: option.splits)

lemma trace_change_to_metadata_user:
  "change_to_metadata_user k w = Inr w'
    \<Longrightarrow> trace w' = trace w @ [Lock CacheMutex, Unlock CacheMutex]"
  by (auto simp: change_to_metadata_user_def Let_def split: option.splits)

lemma trace_VolumeGrid_of_entry:
  "trace (snd (VolumeGrid_of_entry t w)) = trace w @ [Lock CacheMutex, Unlock CacheMutex]"
  using trace_add_metadata_user [of t w]
  by (simp add: VolumeGrid_of_entry_def split_def Let_def)

lemma trace_load:
  assumes "load ev path h w = Inr (h1, w1)"
  shows "trace w1 = trace w \<or>
    (\<exists>k. trace w1 = trace w @ [Lock (EntryMutex k), Lock CacheMutex, Unlock CacheMutex,
                               Unlock (EntryMutex k)]) \<or>
    (\<exists>k. trace w1 = trace w @ [Lock (EntryMutex k), Lock CacheMutex, Unlock CacheMutex,
                               FileOpen path, Unlock (EntryMutex k)])"
proof (cases "entry h")
  case None
  then show ?thesis using assms by (simp add: load_def)
next
  case (Some k)
  show ?thesis
  proof (cases "grid_is_loaded h")
    case True
    then show ?thesis using assms Some by (simp add: load_def)
  next
    case False
    then obtain w2 where c: "change_to_tree_user k (emit (Lock (EntryMutex k)) w) = Inr w2"
      using assms Some by (auto simp: load_def split: sum.splits)
    have t2: "trace w2 = trace w @ [Lock (EntryMutex k), Lock CacheMutex, Unlock CacheMutex]"
      using trace_change_to_tree_user [OF c] by simp
    obtain e where e: "cache w2 k = Some e"
      using assms Some False c by (auto simp: load_def split: option.splits)
    show ?thesis
      using assms Some False c e t2
      by (cases "is_loaded e") (auto simp: load_def Let_def)
  qed
qed

lemma trace_unload:
  assumes "unload h w = Inr (h1, w1)"
  shows "trace w1 = trace w \<or>
    (\<exists>k. trace w1 = trace w @ [Lock (EntryMutex k), Lock CacheMutex, Unlock CacheMutex,
                               Unlock (EntryMutex k)])"
proof (cases "entry h")
  case None
  then show ?thesis using assms by (simp add: unload_def)
next
  case (Some k)
  show ?thesis
  proof (cases "grid_is_loaded h")
    case False
    then show ?thesis using assms Some by (simp add: unload_def)
  next
    case True
    then obtain w2 where c: "change_to_metadata_user k (emit (Lock (EntryMutex k)) w) = Inr w2"
      and w1: "w1 = emit (Unlock (EntryMutex k)) w2"
      using assms Some by (auto simp: unload_def split: sum.splits)
    show ?thesis
      using trace_change_to_metadata_user [OF c] w1 by simp
  qed
qed

text \<open>
  What a vector appends to the trace when it adds a handle: calls into the cache, each
  taking and releasing the mutex of the cache.
\<close>

lemma cache_calls_trans:
  assumes "\<exists>n. t1 = t0 @ concat (replicate n [Lock CacheMutex, Unlock CacheMutex])"
    "\<exists>n. t2 = t1 @ concat (replicate n [Lock CacheMutex, Unlock CacheMutex])"
  shows "\<exists>n. t2 = t0 @ concat (replicate n [Lock CacheMutex, Unlock CacheMutex])"
proof -
  obtain n m where "t1 = t0 @ concat (replicate n [Lock CacheMutex, Unlock CacheMutex])"
    "t2 = t1 @ concat (replicate m [Lock CacheMutex, Unlock CacheMutex])"
    using assms by blast
  then have "t2 = t0 @ concat (replicate (n + m) [Lock CacheMutex, Unlock CacheMutex])"
    by (simp add: replicate_add)
  then show ?thesis by blast
qed

lemma cache_calls_one:
  "t1 = t0 @ [Lock CacheMutex, Unlock CacheMutex]
    \<Longrightarrow> \<exists>n. t1 = t0 @ concat (replicate n [Lock CacheMutex, Unlock CacheMutex])"
  by (rule exI [of _ 1]) simp

lemma cache_calls_none:
  "\<exists>n. t0 = t0 @ concat (replicate n [Lock CacheMutex, Unlock CacheMutex])"
  by (rule exI [of _ 0]) simp

lemma trace_VolumeGrid_copy:
  assumes "VolumeGrid_copy h w = Inr (h1, w1)"
  shows "\<exists>n. trace w1 = trace w @ concat (replicate n [Lock CacheMutex, Unlock CacheMutex])"
proof (cases "entry h")
  case None
  then have "w1 = w" using assms by (simp add: VolumeGrid_copy_def)
  then show ?thesis using cache_calls_none by simp
next
  case (Some k)
  then have "copy_user k (grid_is_loaded h) w = Inr w1"
    using assms by (auto simp: VolumeGrid_copy_def split: sum.splits)
  then show ?thesis using trace_copy_user cache_calls_one by blast
qed

lemma trace_VolumeGrid_delete:
  assumes "VolumeGrid_delete h w = Inr w1"
  shows "\<exists>n. trace w1 = trace w @ concat (replicate n [Lock CacheMutex, Unlock CacheMutex])"
proof (cases "entry h")
  case None
  then have "w1 = w" using assms by (simp add: VolumeGrid_delete_def)
  then show ?thesis using cache_calls_none by simp
next
  case (Some k)
  then have "remove_user k (grid_is_loaded h) w = Inr w1"
    using assms by (simp add: VolumeGrid_delete_def)
  then show ?thesis using trace_remove_user cache_calls_one by blast
qed

lemma trace_copy_grids:
  "copy_grids hs w = Inr w1
    \<Longrightarrow> \<exists>n. trace w1 = trace w @ concat (replicate n [Lock CacheMutex, Unlock CacheMutex])"
proof (induction hs arbitrary: w)
  case Nil
  then show ?case using cache_calls_none by simp
next
  case (Cons h hs)
  then obtain h2 w2 where c: "VolumeGrid_copy h w = Inr (h2, w2)"
    and r: "copy_grids hs w2 = Inr w1"
    by (auto split: sum.splits)
  from cache_calls_trans [OF trace_VolumeGrid_copy [OF c] Cons.IH [OF r]] show ?case .
qed

lemma trace_delete_grids:
  "delete_grids hs w = Inr w1
    \<Longrightarrow> \<exists>n. trace w1 = trace w @ concat (replicate n [Lock CacheMutex, Unlock CacheMutex])"
proof (induction hs arbitrary: w)
  case Nil
  then show ?case using cache_calls_none by simp
next
  case (Cons h hs)
  then obtain w2 where c: "VolumeGrid_delete h w = Inr w2"
    and r: "delete_grids hs w2 = Inr w1"
    by (auto split: sum.splits)
  from cache_calls_trans [OF trace_VolumeGrid_delete [OF c] Cons.IH [OF r]] show ?case .
qed

lemma trace_emplace_back:
  assumes "emplace_back ev t v w = Inr (v1, w1)"
  shows "\<exists>n. trace w1 = trace w @ concat (replicate n [Lock CacheMutex, Unlock CacheMutex])"
proof -
  have new: "\<exists>n. trace (snd (VolumeGrid_of_entry t w))
      = trace w @ concat (replicate n [Lock CacheMutex, Unlock CacheMutex])"
    using trace_VolumeGrid_of_entry [of t w] by (rule cache_calls_one)
  from emplace_back_steps [OF assms] show ?thesis
  proof (elim disjE exE conjE)
    assume "w1 = snd (VolumeGrid_of_entry t w)"
    then show ?thesis using new by simp
  next
    fix w2
    assume c: "copy_grids (grids v) (snd (VolumeGrid_of_entry t w)) = Inr w2"
      and d: "delete_grids (grids v) w2 = Inr w1"
    from cache_calls_trans [OF cache_calls_trans [OF new trace_copy_grids [OF c]]
        trace_delete_grids [OF d]]
    show ?thesis .
  qed
qed

lemma trace_emplace_grids:
  "emplace_grids ev path vs v w = Inr (v1, w1)
    \<Longrightarrow> \<exists>n. trace w1 = trace w @ concat (replicate n [Lock CacheMutex, Unlock CacheMutex])"
proof (induction ev path vs v w rule: emplace_grids.induct)
  case (1 ev path v w)
  then show ?case using cache_calls_none by simp
next
  case (2 ev path vdb_grids v w)
  then show ?case by simp
next
  case (3 ev path vdb_grid vdb_grids v w)
  then obtain v2 w2 where e: "emplace_back ev (Entry_new path vdb_grid) v w = Inr (v2, w2)"
    and r: "emplace_grids ev path vdb_grids v2 w2 = Inr (v1, w1)"
    by (auto split: sum.splits)
  from cache_calls_trans [OF trace_emplace_back [OF e] "3.IH" [OF e refl r]] show ?case .
qed

lemma trace_BKE_volume_load:
  assumes "BKE_volume_load ev volume w = Inr (ok, volume1, w1)"
  shows "trace w1 = trace w \<or>
   (\<exists>p. trace w1 = trace w @ [Lock GridsMutex, FileExists p, Unlock GridsMutex]) \<or>
   (\<exists>p n. trace w1
         = trace w @ [Lock GridsMutex, FileExists p, FileExists p, FileOpen p]
             @ concat (replicate n [Lock CacheMutex, Unlock CacheMutex]) @ [Unlock GridsMutex])"
  using BKE_volume_load_world [OF assms]
proof (elim disjE exE conjE)
  assume "w1 = w"
  then show ?thesis by simp
next
  assume "w1 = emit (Unlock GridsMutex) (emit (FileExists (volume_filepath_get ev volume))
           (emit (Lock GridsMutex) w))"
  then have "trace w1 = trace w @ [Lock GridsMutex, FileExists (volume_filepath_get ev volume),
      Unlock GridsMutex]"
    by simp
  then show ?thesis by blast
next
  fix vs v v3 w4
  assume eg: "emplace_grids ev (volume_filepath_get ev volume) vs v
         (emit (FileOpen (volume_filepath_get ev volume))
           (emit (FileExists (volume_filepath_get ev volume))
             (emit (FileExists (volume_filepath_get ev volume)) (emit (Lock GridsMutex) w))))
         = Inr (v3, w4)" and w1: "w1 = emit (Unlock GridsMutex) w4"
  obtain n where "trace w4 = trace w @ [Lock GridsMutex,
      FileExists (volume_filepath_get ev volume), FileExists (volume_filepath_get ev volume),
      FileOpen (volume_filepath_get ev volume)]
      @ concat (replicate n [Lock CacheMutex, Unlock CacheMutex])"
    using trace_emplace_grids [OF eg] by auto
  then have "trace w1 = trace w @ [Lock GridsMutex,
      FileExists (volume_filepath_get ev volume), FileExists (volume_filepath_get ev volume),
      FileOpen (volume_filepath_get ev volume)]
      @ concat (replicate n [Lock CacheMutex, Unlock CacheMutex]) @ [Unlock GridsMutex]"
    by (simp add: w1)
  then show ?thesis by blast
qed

lemma lock_discipline_cache_calls:
  "m \<noteq> CacheMutex \<Longrightarrow>
    lock_discipline [m] (concat (replicate n [Lock CacheMutex, Unlock CacheMutex]) @ evs)
      = lock_discipline [m] evs"
  by (induction n) simp_all

lemma perform_emits:
  assumes "perform ev x w = Inr w'"
  shows "\<exists>evs. trace w' = trace w @ evs \<and> lock_discipline [] evs"
proof (cases x)
  case (Add_metadata_user t)
  then show ?thesis using assms trace_add_metadata_user [of t w] by auto
next
  case (Copy_user k b)
  then show ?thesis using assms trace_copy_user [of k b w w'] by auto
next
  case (Remove_user k b)
  then show ?thesis using assms trace_remove_user [of k b w w'] by auto
next
  case (Change_to_tree_user k)
  then show ?thesis using assms trace_change_to_tree_user [of k w w'] by auto
next
  case (Change_to_metadata_user k)
  then show ?thesis using assms trace_change_to_metadata_user [of k w w'] by auto
next
  case (Grid_new t)
  then show ?thesis using assms trace_VolumeGrid_of_entry [of t w] by auto
next
  case (Grid_copy h)
  show ?thesis
  proof (cases "entry h")
    case None
    then have "trace w' = trace w @ []"
      using assms Grid_copy by (auto simp: world_of_def VolumeGrid_copy_def)
    then show ?thesis by (intro exI [of _ "[]"]) simp
  next
    case (Some k)
    then have "copy_user k (grid_is_loaded h) w = Inr w'"
      using assms Grid_copy by (auto simp: world_of_def VolumeGrid_copy_def split: sum.splits)
    then show ?thesis using trace_copy_user by fastforce
  qed
next
  case (Grid_delete h)
  show ?thesis
  proof (cases "entry h")
    case None
    then have "trace w' = trace w @ []"
      using assms Grid_delete by (auto simp: VolumeGrid_delete_def)
    then show ?thesis by (intro exI [of _ "[]"]) simp
  next
    case (Some k)
    then have "remove_user k (grid_is_loaded h) w = Inr w'"
      using assms Grid_delete by (auto simp: VolumeGrid_delete_def)
    then show ?thesis using trace_remove_user by fastforce
  qed
next
  case (Grid_load path h)
  then obtain h1 where "load ev path h w = Inr (h1, w')"
    using assms by (auto simp: world_of_def split: sum.splits)
  from trace_load [OF this] show ?thesis
  proof (elim disjE exE)
    assume "trace w' = trace w"
    then show ?thesis by (intro exI [of _ "[]"]) simp
  next
    fix k
    assume "trace w' = trace w @ [Lock (EntryMutex k), Lock CacheMutex, Unlock CacheMutex,
                               Unlock (EntryMutex k)]"
    then show ?thesis by simp
  next
    fix k
    assume "trace w' = trace w @ [Lock (EntryMutex k), Lock CacheMutex, Unlock CacheMutex,
                               FileOpen path, Unlock (EntryMutex k)]"
    then show ?thesis by simp
  qed
next
  case (Grid_unload h)
  then obtain h1 where "unload h w = Inr (h1, w')"
    using assms by (auto simp: world_of_def split: sum.splits)
  from trace_unload [OF this] show ?thesis
  proof (elim disjE exE)
    assume "trace w' = trace w"
    then show ?thesis by (intro exI [of _ "[]"]) simp
  next
    fix k
    assume "trace w' = trace w @ [Lock (EntryMutex k), Lock CacheMutex, Unlock CacheMutex,
                               Unlock (EntryMutex k)]"
    then show ?thesis by simp
  qed
next
  case (Volume_load volume)
  then obtain ok volume1 where l: "BKE_volume_load ev volume w = Inr (ok, volume1, w')"
    using assms by (auto split: sum.splits)
  from trace_BKE_volume_load [OF l] show ?thesis
  proof (elim disjE exE)
    assume "trace w' = trace w"
    then show ?thesis by (intro exI [of _ "[]"]) simp
  next
    fix p
    assume "trace w' = trace w @ [Lock GridsMutex, FileExists p, Unlock GridsMutex]"
    then show ?thesis by simp
  next
    fix p n
    assume t: "trace w'
         = trace w @ [Lock GridsMutex, FileExists p, FileExists p, FileOpen p]
             @ concat (replicate n [Lock CacheMutex, Unlock CacheMutex]) @ [Unlock GridsMutex]"
    have "lock_discipline [] ([Lock GridsMutex, FileExists p, FileExists p, FileOpen p]
             @ concat (replicate n [Lock CacheMutex, Unlock CacheMutex]) @ [Unlock GridsMutex])"
      using lock_discipline_cache_calls [of GridsMutex n "[Unlock GridsMutex]"] by simp
    then show ?thesis using t by blast
  qed
qed

text \<open>
  What \<open>lock_discipline\<close> refuses: a second mutex that is not the mutex of the cache, be it
  the mutex of an entry under that of the grid vector, that of the grid vector under that of
  an entry, or the mutex held itself; any mutex under the mutex of the cache; a third mutex;
  a file touched under the mutex of the cache; a mutex left held.
\<close>

lemma lock_discipline_refuses:
  "\<not> lock_discipline [] [Lock GridsMutex, Lock (EntryMutex k), Unlock (EntryMutex k),
      Unlock GridsMutex]"
  "\<not> lock_discipline [] [Lock (EntryMutex k), Lock GridsMutex, FileOpen p, Unlock GridsMutex,
      Unlock (EntryMutex k)]"
  "\<not> lock_discipline [] [Lock (EntryMutex k), Lock (EntryMutex k), Unlock (EntryMutex k),
      Unlock (EntryMutex k)]"
  "\<not> lock_discipline [] [Lock (EntryMutex k), Lock (EntryMutex k'), Unlock (EntryMutex k'),
      Unlock (EntryMutex k)]"
  "\<not> lock_discipline [] [Lock CacheMutex, Lock (EntryMutex k), Unlock (EntryMutex k),
      Unlock CacheMutex]"
  "\<not> lock_discipline [] [Lock GridsMutex, Lock CacheMutex, Lock CacheMutex, Unlock CacheMutex,
      Unlock CacheMutex, Unlock GridsMutex]"
  "\<not> lock_discipline [] [Lock CacheMutex, FileOpen p, Unlock CacheMutex]"
  "\<not> lock_discipline [] [Lock (EntryMutex k), FileOpen p]"
  by simp_all

lemma lock_discipline_second:
  "lock_discipline (h # hs) (Lock m # evs) \<Longrightarrow> hs = [] \<and> h \<noteq> CacheMutex \<and> m = CacheMutex"
  by simp

text \<open>
  Claim C9, as the code has it. An operation that takes a mutex while it holds one holds
  one only, the mutex it holds is not the mutex of the cache, and the mutex it takes is the
  mutex of the cache: the mutex of the cache is the inner one, taken by a member function
  of the cache that \<^verbatim>\<open>VolumeGrid::load\<close> and \<^verbatim>\<open>unload\<close> call under the mutex of the entry
  and \<^verbatim>\<open>BKE_volume_load\<close> calls, for each handle it makes, copies or deletes, under the
  mutex of the grid vector. The mutex released is the one taken last, none is held when the
  operation returns, and no file is tested or opened while the mutex of the cache is held.
\<close>

theorem operations_keep_lock_discipline:
  "perform ev x w = Inr w' \<longrightarrow>
     (\<exists>evs. trace w' = trace w @ evs \<and> emitted ev x w = Some evs \<and> lock_discipline [] evs)"
proof
  assume p: "perform ev x w = Inr w'"
  then obtain evs where e: "trace w' = trace w @ evs" "lock_discipline [] evs"
    using perform_emits by blast
  then have "emitted ev x w = Some evs"
    using p by (simp add: emitted_def)
  then show "\<exists>evs. trace w' = trace w @ evs \<and> emitted ev x w = Some evs \<and> lock_discipline [] evs"
    using e by blast
qed

text \<open>
  Claim C9, as the spec has it: no operation holds two of the three mutexes at once, the
  mutex of an entry being released before a call into the cache. The load of a handle
  whose tree is not loaded holds the mutex of its entry while \<open>change_to_tree_user\<close> takes
  the mutex of the cache.
\<close>

theorem load_holds_entry_and_cache_mutex:
  "emitted demo_env (Grid_load ''/shots/smoke.vdb'' density_handle) demo_world
     = Some [Lock (EntryMutex density_key), Lock CacheMutex, Unlock CacheMutex,
             FileOpen ''/shots/smoke.vdb'', Unlock (EntryMutex density_key)]
   \<and> \<not> one_lock_at_a_time []
         [Lock (EntryMutex density_key), Lock CacheMutex, Unlock CacheMutex,
          FileOpen ''/shots/smoke.vdb'', Unlock (EntryMutex density_key)]"
  by (simp add: emitted_def world_of_def load_def change_to_tree_user_def
      update_for_remove_user_def name_def demo_env_def Let_def demo_defs)

theorem operations_keep_lock_discipline_witness:
  "(\<exists>w'. perform demo_env (Grid_load ''/shots/smoke.vdb'' density_handle) demo_world = Inr w'
     \<and> trace w' = trace demo_world @ [Lock (EntryMutex density_key), Lock CacheMutex,
          Unlock CacheMutex, FileOpen ''/shots/smoke.vdb'', Unlock (EntryMutex density_key)]
     \<and> lock_discipline [] [Lock (EntryMutex density_key), Lock CacheMutex,
          Unlock CacheMutex, FileOpen ''/shots/smoke.vdb'', Unlock (EntryMutex density_key)])
   \<and> (\<exists>w'. perform demo_env (Volume_load (file_volume ''//smoke.vdb'')) empty_world = Inr w'
     \<and> trace w' =
         [Lock GridsMutex, FileExists ''/shots/smoke.vdb'', FileExists ''/shots/smoke.vdb'',
          FileOpen ''/shots/smoke.vdb'', Lock CacheMutex, Unlock CacheMutex, Lock CacheMutex,
          Unlock CacheMutex, Lock CacheMutex, Unlock CacheMutex, Lock CacheMutex,
          Unlock CacheMutex, Unlock GridsMutex]
     \<and> lock_discipline []
         [Lock GridsMutex, FileExists ''/shots/smoke.vdb'', FileExists ''/shots/smoke.vdb'',
          FileOpen ''/shots/smoke.vdb'', Lock CacheMutex, Unlock CacheMutex, Lock CacheMutex,
          Unlock CacheMutex, Lock CacheMutex, Unlock CacheMutex, Lock CacheMutex,
          Unlock CacheMutex, Unlock GridsMutex])"
proof -
  have e: "emitted demo_env (Grid_load ''/shots/smoke.vdb'' density_handle) demo_world
     = Some [Lock (EntryMutex density_key), Lock CacheMutex, Unlock CacheMutex,
             FileOpen ''/shots/smoke.vdb'', Unlock (EntryMutex density_key)]"
    by (simp add: emitted_def world_of_def load_def change_to_tree_user_def
      update_for_remove_user_def name_def demo_env_def Let_def demo_defs)
  then obtain w' where p:
    "perform demo_env (Grid_load ''/shots/smoke.vdb'' density_handle) demo_world = Inr w'"
    by (auto simp: emitted_def split: sum.splits)
  have first: "\<exists>w'. perform demo_env (Grid_load ''/shots/smoke.vdb'' density_handle) demo_world
       = Inr w'
     \<and> trace w' = trace demo_world @ [Lock (EntryMutex density_key), Lock CacheMutex,
          Unlock CacheMutex, FileOpen ''/shots/smoke.vdb'', Unlock (EntryMutex density_key)]
     \<and> lock_discipline [] [Lock (EntryMutex density_key), Lock CacheMutex,
          Unlock CacheMutex, FileOpen ''/shots/smoke.vdb'', Unlock (EntryMutex density_key)]"
    using operations_keep_lock_discipline [of demo_env
        "Grid_load ''/shots/smoke.vdb'' density_handle" demo_world w'] p e
    by auto
  obtain volume1 w1 where l:
    "BKE_volume_load demo_env (file_volume ''//smoke.vdb'') empty_world = Inr (True, volume1, w1)"
    and t: "trace w1 =
         [Lock GridsMutex, FileExists ''/shots/smoke.vdb'', FileExists ''/shots/smoke.vdb'',
          FileOpen ''/shots/smoke.vdb'', Lock CacheMutex, Unlock CacheMutex, Lock CacheMutex,
          Unlock CacheMutex, Lock CacheMutex, Unlock CacheMutex, Lock CacheMutex,
          Unlock CacheMutex, Unlock GridsMutex]"
    using demo_load by blast
  have pv: "perform demo_env (Volume_load (file_volume ''//smoke.vdb'')) empty_world = Inr w1"
    using l by simp
  have "trace empty_world = []"
    by (simp add: empty_world_def)
  then have "lock_discipline [] (trace w1)"
    using operations_keep_lock_discipline [of demo_env
        "Volume_load (file_volume ''//smoke.vdb'')" empty_world w1] pv
    by auto
  then show ?thesis
    using first pv t by auto
qed

end
